theory Spec2Isabelle
  imports Complex_Main
begin

section \<open>Values of the host language\<close>

text \<open>
  A text of the host language is a sequence of UTF-16 code units, here natural numbers
  (a code unit is below 65536; nothing below depends on that bound). The texts that the
  library lowers and searches, namely the names, addresses and public keys of the records,
  the search queries and the name filters, are such sequences. The texts that it only
  stores, sends, writes itself or validates against patterns of ASCII characters
  (identifiers, requested names and addresses, methods, paths, header values, messages)
  are kept as strings of characters, and \<open>js\<close> reads such a string as a text, each
  character as the code unit of its number.

  \<open>String.prototype.toLowerCase\<close> belongs to the platform and follows the case tables of
  Unicode, which are not part of the library; it does not work code unit by code unit
  (a capital sigma is lowered to one of two small letters according to its neighbours,
  and some letters are lowered to two code units). It is a parameter, named
  \<open>toLowerCase\<close>, of every function of the collection that calls it, and a component
  of the environment of the repository; nothing is assumed about it.
  \<open>String.prototype.includes\<close> is the test for a contiguous run of code units.
\<close>

type_synonym js_string = "nat list"

definition js :: "string \<Rightarrow> js_string" where
  "js s = map of_char s"

fun includes_str :: "'a list \<Rightarrow> 'a list \<Rightarrow> bool" where
  "includes_str [] q = (q = [])"
| "includes_str (c # s) q = (take (length q) (c # s) = q \<or> includes_str s q)"

text \<open>
  A \<open>Date\<close> is its time value in milliseconds, \<open>None\<close> for an invalid date (time value
  \<open>NaN\<close>). Relational operators on two dates compare the time values, and every
  comparison with \<open>NaN\<close> is false.
\<close>

type_synonym js_date = "int option"



text \<open>
  The numbers that \<open>Math.ceil(total / limit)\<close> can produce from two integers: a finite
  integer, an infinity (a nonzero numerator over zero) or \<open>NaN\<close> (zero over zero).
\<close>

datatype js_number = Finite int | PosInfinity | NegInfinity | NaN

definition Math_ceil_div :: "int \<Rightarrow> int \<Rightarrow> js_number" where
  "Math_ceil_div n d =
     (if d = 0
      then (if n = 0 then NaN else if 0 < n then PosInfinity else NegInfinity)
      else Finite \<lceil>(of_int n :: real) / of_int d\<rceil>)"

fun js_int_lt :: "int \<Rightarrow> js_number \<Rightarrow> bool" where
  "js_int_lt p (Finite t) = (p < t)"
| "js_int_lt p PosInfinity = True"
| "js_int_lt p NegInfinity = False"
| "js_int_lt p NaN = False"

text \<open>
  \<open>Array.prototype.slice(start, end)\<close> on integer arguments: a negative index counts from
  the end, both indices are clamped to the array, and an empty range gives the empty array.
\<close>

definition js_slice :: "'a list \<Rightarrow> int \<Rightarrow> int \<Rightarrow> 'a list" where
  "js_slice xs start fin =
     (let len = int (length xs);
          k = (if start < 0 then max (len + start) 0 else min start len);
          final = (if fin < 0 then max (len + fin) 0 else min fin len)
      in take (nat (final - k)) (drop (nat k) xs))"

text \<open>
  A \<open>Map\<close> with string keys, as the list of its entries in insertion order: \<open>set\<close> on a
  key that is present replaces the value and keeps the position, \<open>set\<close> on a new key appends.
\<close>

fun Map_set :: "(string \<times> 'v) list \<Rightarrow> string \<Rightarrow> 'v \<Rightarrow> (string \<times> 'v) list" where
  "Map_set [] k v = [(k, v)]"
| "Map_set ((k', v') # m) k v = (if k' = k then (k, v) # m else (k', v') # Map_set m k v)"

definition new_Map :: "(string \<times> 'v) list \<Rightarrow> (string \<times> 'v) list" where
  "new_Map entries = foldl (\<lambda>m (k, v). Map_set m k v) [] entries"

section \<open>Client records\<close>

text \<open>
  \<open>IClientData\<close> is the record as the remote service sends it. Its three timestamp
  strings are represented by the dates they parse to; \<open>latestHandshakeAt\<close> is \<open>None\<close>
  when the field is null or empty.
\<close>

record IClientData =
  data_id :: string
  data_name :: js_string
  data_enabled :: bool
  data_address :: js_string
  data_publicKey :: js_string
  data_createdAt :: js_date
  data_updatedAt :: js_date
  data_downloadableConfig :: bool
  data_persistentKeepalive :: string
  data_latestHandshakeAt :: "js_date option"
  data_transferRx :: int
  data_transferTx :: int

record Client =
  client_id :: string
  name :: js_string
  enabled :: bool
  address :: js_string
  publicKey :: js_string
  createdAt :: js_date
  updatedAt :: js_date
  downloadableConfig :: bool
  persistentKeepalive :: string
  latestHandshakeAt :: "js_date option"
  transferRx :: int
  transferTx :: int

definition new_Client :: "IClientData \<Rightarrow> Client" where
  "new_Client d =
     \<lparr> client_id = data_id d, name = data_name d, enabled = data_enabled d,
       address = data_address d, publicKey = data_publicKey d,
       createdAt = data_createdAt d, updatedAt = data_updatedAt d,
       downloadableConfig = data_downloadableConfig d,
       persistentKeepalive = data_persistentKeepalive d,
       latestHandshakeAt = (case data_latestHandshakeAt d of None \<Rightarrow> None | Some t \<Rightarrow> Some t),
       transferRx = data_transferRx d, transferTx = data_transferTx d \<rparr>"


section \<open>ClientCollection\<close>

datatype ClientCollection = ClientCollection (clients: "(string \<times> Client) list")

definition new_ClientCollection :: "Client list \<Rightarrow> ClientCollection" where
  "new_ClientCollection cs = ClientCollection (new_Map (map (\<lambda>c. (client_id c, c)) cs))"

definition fromRawData :: "IClientData list \<Rightarrow> ClientCollection" where
  "fromRawData data = new_ClientCollection (map new_Client data)"

definition size_of :: "ClientCollection \<Rightarrow> nat" where
  "size_of col = length (clients col)"

definition toArray :: "ClientCollection \<Rightarrow> Client list" where
  "toArray col = map snd (clients col)"

definition get :: "ClientCollection \<Rightarrow> string \<Rightarrow> Client option" where
  "get col i = map_of (clients col) i"

definition filter_collection :: "ClientCollection \<Rightarrow> (Client \<Rightarrow> bool) \<Rightarrow> ClientCollection" where
  "filter_collection col predicate = new_ClientCollection (filter predicate (toArray col))"

subsection \<open>paginate\<close>

record IPaginatedResult =
  items :: "Client list"
  total_r :: int
  page :: int
  limit :: int
  totalPages :: js_number
  hasNext :: bool
  hasPrev :: bool

text \<open>
  Page number and limit are numbers of the host language; the model takes integers, of
  either sign, and follows \<open>Math.ceil\<close>, the division and \<open>slice\<close> on them.
\<close>

definition paginate :: "ClientCollection \<Rightarrow> int \<Rightarrow> int \<Rightarrow> IPaginatedResult" where
  "paginate col p l =
     (let n = int (size_of col);
          pages = Math_ceil_div n l;
          offset = (p - 1) * l;
          xs = js_slice (toArray col) offset (offset + l)
      in \<lparr> items = xs, total_r = n, page = p, limit = l,
           totalPages = pages, hasNext = js_int_lt p pages,
           hasPrev = (p > 1) \<rparr>)"

subsection \<open>filterBy\<close>




subsection \<open>search and findByName\<close>

definition search ::
  "(js_string \<Rightarrow> js_string) \<Rightarrow> ClientCollection \<Rightarrow> js_string \<Rightarrow> ClientCollection" where
  "search toLowerCase col query =
     (let lowerQuery = toLowerCase query
      in filter_collection col
           (\<lambda>c. includes_str (toLowerCase (name c)) lowerQuery
                \<or> includes_str (address c) query
                \<or> includes_str (publicKey c) query))"

definition findByName ::
  "(js_string \<Rightarrow> js_string) \<Rightarrow> ClientCollection \<Rightarrow> js_string \<Rightarrow> Client option" where
  "findByName toLowerCase col n = find (\<lambda>c. toLowerCase (name c) = toLowerCase n) (toArray col)"

section \<open>Exceptions\<close>

text \<open>
  The exception classes of the library, with the fields they carry, and \<open>JsError\<close> for an
  error of the platform (name and message), which is how \<open>new Error(...)\<close> and the errors
  thrown by \<open>fetch\<close>, \<open>Response.text\<close> and \<open>JSON.parse\<close> appear. The messages that the
  constructors derive from their arguments are not stored: \<open>NetworkException n cause\<close> is
  the exception with message \<open>Request failed after n attempts\<close>, \<open>TimeoutException ms\<close> the
  one with message \<open>Request timed out after ms\<close>.
\<close>

datatype exn =
    UnauthorizedException
  | RateLimitException "int option"
  | ServerException string int
  | TimeoutException int
  | NetworkException int "exn option"
  | ClientNotFoundException string
  | ValidationException string string
  | JsError string string

text \<open>The \<open>name\<close> property: the class name for the library's exceptions.\<close>

fun exn_name :: "exn \<Rightarrow> string" where
  "exn_name UnauthorizedException = ''UnauthorizedException''"
| "exn_name (RateLimitException _) = ''RateLimitException''"
| "exn_name (ServerException _ _) = ''ServerException''"
| "exn_name (TimeoutException _) = ''TimeoutException''"
| "exn_name (NetworkException _ _) = ''NetworkException''"
| "exn_name (ClientNotFoundException _) = ''ClientNotFoundException''"
| "exn_name (ValidationException _ _) = ''ValidationException''"
| "exn_name (JsError n _) = n"

fun is_UnauthorizedException :: "exn \<Rightarrow> bool" where
  "is_UnauthorizedException UnauthorizedException = True"
| "is_UnauthorizedException _ = False"

fun is_RateLimitException :: "exn \<Rightarrow> bool" where
  "is_RateLimitException (RateLimitException _) = True"
| "is_RateLimitException _ = False"

section \<open>parseInt\<close>

text \<open>
  \<open>parseInt(s)\<close> without a radix: leading white space is skipped, a sign is read, a
  prefix \<open>0x\<close> selects radix 16, the longest run of digits is converted, and the result
  is \<open>NaN\<close> (here \<open>None\<close>) when there is no digit. The white space of the language
  among the characters is the tabulation, the line feed, the vertical tabulation, the form
  feed, the carriage return, the space and the no-break space.
\<close>

definition is_whitespace :: "char \<Rightarrow> bool" where
  "is_whitespace c =
     (c \<in> set [CHR 0x09, CHR 0x0A, CHR 0x0B, CHR 0x0C, CHR 0x0D, CHR 0x20, CHR 0xA0])"

definition digit_value :: "int \<Rightarrow> char \<Rightarrow> int option" where
  "digit_value radix c =
     (case map_of (zip ''0123456789abcdef'' [0, 1, 2, 3, 4, 5, 6, 7, 8, 9, 10, 11, 12, 13, 14, 15]
                   @ zip ''ABCDEF'' [10, 11, 12, 13, 14, 15]) c of
        None \<Rightarrow> None
      | Some v \<Rightarrow> if v < radix then Some v else None)"

fun digits_value :: "int \<Rightarrow> int \<Rightarrow> string \<Rightarrow> int" where
  "digits_value radix acc [] = acc"
| "digits_value radix acc (c # cs) =
     (case digit_value radix c of
        None \<Rightarrow> acc
      | Some v \<Rightarrow> digits_value radix (acc * radix + v) cs)"

definition parseInt :: "string \<Rightarrow> int option" where
  "parseInt s =
     (let s1 = dropWhile is_whitespace s;
          negative = (take 1 s1 = ''-'');
          s2 = (if take 1 s1 = ''-'' \<or> take 1 s1 = ''+'' then drop 1 s1 else s1);
          hex = (take 2 s2 = ''0x'' \<or> take 2 s2 = ''0X'');
          radix = (if hex then 16 else 10);
          s3 = (if hex then drop 2 s2 else s2)
      in case s3 of
           [] \<Rightarrow> None
         | c # cs \<Rightarrow>
             (case digit_value radix c of
                None \<Rightarrow> None
              | Some v \<Rightarrow>
                  Some ((if negative then - 1 else 1) * digits_value radix 0 s3)))"

section \<open>HttpClient\<close>

record 'a IApiResponse =
  success :: bool
  data :: "'a option"
  statusCode :: int

text \<open>
  What one call of \<open>fetch\<close> does when it is left to itself: it rejects with an error of
  the platform, or it resolves with a response. Of a response the client reads the status,
  the status text, the headers and the text of the body, which may fail to arrive. The
  cookie jar (\<open>parseCookies\<close>, \<open>buildHeaders\<close>) and the logger are left out: they throw
  nothing, and they feed the outgoing request and the log only, which the control flow of
  \<open>request\<close> does not read.
\<close>

record response =
  status :: int
  statusText :: string
  headers :: "string \<Rightarrow> string option"
  body_text :: "(string \<times> string) + string"

datatype attempt = Rejected string string | Responded response

text \<open>\<open>Response.ok\<close> is true for the statuses 200 to 299.\<close>

definition ok :: "response \<Rightarrow> bool" where
  "ok r = (200 \<le> status r \<and> status r \<le> 299)"

text \<open>
  The network as the client sees it: \<open>script k\<close> is what the \<open>k\<close>-th call of \<open>fetch\<close>
  does when nothing aborts it, \<open>latency k\<close> is the time in milliseconds that it takes to
  do so, \<open>fetches\<close> counts the calls made, and \<open>delays\<close> lists the arguments of the calls
  of \<open>delay\<close>. \<open>JSON_parse\<close> is \<open>JSON.parse\<close> into the type of the payload (\<open>Inl\<close> when it
  throws), \<open>of_text\<close> is the cast of a plain text to that type. An error of the platform
  is given by its name and its message.
\<close>

record 'a network =
  script :: "nat \<Rightarrow> attempt"
  latency :: "nat \<Rightarrow> int"
  JSON_parse :: "string \<Rightarrow> (string \<times> string) + 'a"
  of_text :: "string \<Rightarrow> 'a"
  fetches :: nat
  delays :: "int list"

record HttpClient =
  timeout :: int
  retryAttempts :: int
  retryDelay :: int

text \<open>The part of the \<open>try\<close> block after the status checks: reading the payload.\<close>

definition platform_error :: "string \<times> string \<Rightarrow> exn" where
  "platform_error e = JsError (fst e) (snd e)"

definition read_data :: "'a network \<Rightarrow> response \<Rightarrow> exn + 'a option" where
  "read_data w r =
     (if (case headers r ''content-type'' of None \<Rightarrow> False
          | Some ct \<Rightarrow> includes_str ct ''application/json'')
      then (case body_text r of
              Inl e \<Rightarrow> Inl (platform_error e)
            | Inr t \<Rightarrow>
                if t \<noteq> []
                then (case JSON_parse w t of
                        Inl e \<Rightarrow> Inl (platform_error e)
                      | Inr v \<Rightarrow> Inr (Some v))
                else Inr None)
      else if (case headers r ''content-type'' of None \<Rightarrow> False
               | Some ct \<Rightarrow> includes_str ct ''text/plain'')
      then (case body_text r of
              Inl e \<Rightarrow> Inl (platform_error e)
            | Inr t \<Rightarrow> Inr (Some (of_text w t)))
      else Inr None)"

text \<open>
  The \<open>try\<close> block of one attempt: \<open>Inl\<close> is the error it throws, \<open>Inr\<close> the response
  it returns.
\<close>

definition try_block :: "'a network \<Rightarrow> attempt \<Rightarrow> exn + 'a IApiResponse" where
  "try_block w a =
     (case a of
        Rejected n m \<Rightarrow> Inl (platform_error (n, m))
      | Responded r \<Rightarrow>
          if status r = 401 then Inl UnauthorizedException
          else if status r = 429
          then Inl (RateLimitException
                 (parseInt (case headers r ''retry-after'' of
                              None \<Rightarrow> ''60''
                            | Some h \<Rightarrow> if h = [] then ''60'' else h)))
          else if status r \<ge> 500
          then Inl (ServerException (''Server error: '' @ statusText r) (status r))
          else (case read_data w r of
                  Inl e \<Rightarrow> Inl e
                | Inr d \<Rightarrow> Inr \<lparr> success = ok r, data = d, statusCode = status r \<rparr>))"

text \<open>
  The timer of an attempt. \<open>setTimeout(f, ms)\<close> runs \<open>f\<close> after \<open>ms\<close> milliseconds; the
  platform (Node, whose \<open>process.env\<close> the configuration reads) takes a delay below 1 or
  above 2147483647 as 1. \<open>request\<close> starts the timer with \<open>this.timeout\<close> before it calls
  \<open>fetch\<close> with the signal of the controller that the timer aborts, and clears the timer
  as soon as \<open>fetch\<close> has resolved. So \<open>await fetch(...)\<close> yields what the network does
  when that takes less than the delay of the timer, and rejects with an \<open>AbortError\<close>
  otherwise (when both fall due together, the timer comes first). The body is read after
  the timer has been cleared (\<open>response.text()\<close> comes after \<open>clearTimeout\<close>), so no
  duration belongs to it here: \<open>body_text\<close> is what \<open>response.text()\<close> yields in the end.
\<close>

definition setTimeout_delay :: "int \<Rightarrow> int" where
  "setTimeout_delay ms = (if 1 \<le> ms \<and> ms \<le> 2147483647 then ms else 1)"

definition fetch :: "HttpClient \<Rightarrow> 'a network \<Rightarrow> nat \<Rightarrow> attempt" where
  "fetch hc w k =
     (if latency w k < setTimeout_delay (timeout hc)
      then script w k
      else Rejected ''AbortError'' ''This operation was aborted'')"

text \<open>
  The loop of \<open>request\<close>, from attempt number \<open>attempt\<close> on, with the last error caught
  so far.
\<close>

function request_loop ::
  "HttpClient \<Rightarrow> int \<Rightarrow> exn option \<Rightarrow> 'a network \<Rightarrow> (exn + 'a IApiResponse) \<times> 'a network"
where
  "request_loop hc attempt lastError w =
     (if attempt \<le> retryAttempts hc
      then
        (let w1 = w\<lparr>fetches := Suc (fetches w)\<rparr> in
         case try_block w (fetch hc w (fetches w)) of
           Inr res \<Rightarrow> (Inr res, w1)
         | Inl error \<Rightarrow>
             if is_UnauthorizedException error \<or> is_RateLimitException error
             then (Inl error, w1)
             else if exn_name error = ''AbortError''
             then (Inl (TimeoutException (timeout hc)), w1)
             else request_loop hc (attempt + 1) (Some error)
                    (if attempt < retryAttempts hc
                     then w1\<lparr>delays := delays w1 @ [retryDelay hc * attempt]\<rparr>
                     else w1))
      else (Inl (NetworkException (retryAttempts hc) lastError), w))"
  by pat_completeness auto
termination
  by (relation "measure (\<lambda>(hc, attempt, lastError, w). nat (retryAttempts hc + 1 - attempt))") auto

definition request :: "HttpClient \<Rightarrow> 'a network \<Rightarrow> (exn + 'a IApiResponse) \<times> 'a network" where
  "request hc w = request_loop hc 1 None w"

section \<open>Validator\<close>

text \<open>
  The regular expressions of the validator are anchored at both ends and use character
  classes, sequence, alternative and bounded repetition only. \<open>regex_test\<close> decides a
  match by derivatives.
\<close>

datatype regex = Never | Eps | Class "char list" | Seq regex regex | Alt regex regex

fun nullable :: "regex \<Rightarrow> bool" where
  "nullable Never = False"
| "nullable Eps = True"
| "nullable (Class cs) = False"
| "nullable (Seq a b) = (nullable a \<and> nullable b)"
| "nullable (Alt a b) = (nullable a \<or> nullable b)"

fun deriv :: "char \<Rightarrow> regex \<Rightarrow> regex" where
  "deriv c Never = Never"
| "deriv c Eps = Never"
| "deriv c (Class cs) = (if c \<in> set cs then Eps else Never)"
| "deriv c (Seq a b) =
     (if nullable a then Alt (Seq (deriv c a) b) (deriv c b) else Seq (deriv c a) b)"
| "deriv c (Alt a b) = Alt (deriv c a) (deriv c b)"

definition regex_test :: "regex \<Rightarrow> string \<Rightarrow> bool" where
  "regex_test r s = nullable (foldl (\<lambda>r c. deriv c r) r s)"

fun times :: "regex \<Rightarrow> nat \<Rightarrow> regex" where
  "times r 0 = Eps"
| "times r (Suc n) = Seq r (times r n)"

fun at_most :: "regex \<Rightarrow> nat \<Rightarrow> regex" where
  "at_most r 0 = Eps"
| "at_most r (Suc n) = Alt Eps (Seq r (at_most r n))"

definition between :: "regex \<Rightarrow> nat \<Rightarrow> nat \<Rightarrow> regex" where
  "between r lo hi = Seq (times r lo) (at_most r (hi - lo))"

definition optional :: "regex \<Rightarrow> regex" where
  "optional r = Alt Eps r"

definition digit :: regex where
  "digit = Class ''0123456789''"

definition hex_digit :: regex where
  "hex_digit = Class ''0123456789abcdefABCDEF''"

definition ipv4Regex :: regex where
  "ipv4Regex =
     Seq (times (Seq (between digit 1 3) (Class ''.'')) 3)
       (Seq (between digit 1 3) (optional (Seq (Class ''/'') (between digit 1 2))))"

definition ipv6Regex :: regex where
  "ipv6Regex =
     Seq (times (Seq (between hex_digit 1 4) (Class '':'')) 7)
       (Seq (between hex_digit 1 4) (optional (Seq (Class ''/'') (between digit 1 3))))"

text \<open>\<open>String.prototype.trim\<close>: white space is removed at both ends.\<close>

definition trim :: "string \<Rightarrow> string" where
  "trim s = rev (dropWhile is_whitespace (rev (dropWhile is_whitespace s)))"

text \<open>\<open>NAME_REGEX\<close>, one or more characters of the class \<open>[a-zA-Z0-9_-]\<close>.\<close>

definition NAME_REGEX_test :: "string \<Rightarrow> bool" where
  "NAME_REGEX_test s =
     (s \<noteq> [] \<and>
      list_all (\<lambda>c. c \<in> set ''abcdefghijklmnopqrstuvwxyzABCDEFGHIJKLMNOPQRSTUVWXYZ0123456789_-'') s)"

text \<open>Each validator returns the exception it throws, or \<open>None\<close>.\<close>

definition validateClientName :: "string \<Rightarrow> exn option" where
  "validateClientName n =
     (if n = [] then Some (ValidationException ''name'' ''Name is required and must be a string'')
      else if length (trim n) < 1
      then Some (ValidationException ''name'' ''Name must be at least 1 character(s)'')
      else if length (trim n) > 64
      then Some (ValidationException ''name'' ''Name must not exceed 64 characters'')
      else if \<not> NAME_REGEX_test (trim n)
      then Some (ValidationException ''name''
             ''Name can only contain alphanumeric characters, underscores, and hyphens'')
      else None)"

definition validateIPAddress :: "string \<Rightarrow> exn option" where
  "validateIPAddress a =
     (if \<not> regex_test ipv4Regex a \<and> \<not> regex_test ipv6Regex a
      then Some (ValidationException ''address'' ''Invalid IP address format'')
      else None)"

definition validateId :: "string \<Rightarrow> exn option" where
  "validateId i =
     (if i = [] then Some (ValidationException ''id'' ''ID is required and must be a string'')
      else if length (trim i) = 0 then Some (ValidationException ''id'' ''ID cannot be empty'')
      else None)"

section \<open>ClientRepository\<close>

text \<open>
  The repository reaches the remote service through the \<open>get\<close>, \<open>post\<close>, \<open>put\<close> and
  \<open>delete\<close> methods of its \<open>HttpClient\<close>; each call throws a transport error or returns an
  \<open>IApiResponse\<close> of the type given at the call. The service and the clock are scripted:
  \<open>answers_list k\<close> is what the \<open>k\<close>-th call does when it is the \<open>GET\<close> of the client
  list, \<open>answers_item k\<close> what it does when it is a \<open>POST\<close>, \<open>PUT\<close> or \<open>DELETE\<close>;
  \<open>requests\<close> is the log of the calls made (method, path, body); \<open>clock k\<close> is the time
  that the \<open>k\<close>-th reading of the clock returns. With the clock comes the other function
  of the platform that the repository calls, \<open>toLowerCase\<close>.
\<close>

type_synonym http_request = "string \<times> string \<times> (string \<times> string) list option"

record remote =
  answers_list :: "nat \<Rightarrow> exn + IClientData list IApiResponse"
  answers_item :: "nat \<Rightarrow> exn + IClientData IApiResponse"
  requests :: "http_request list"
  clock :: "nat \<Rightarrow> int"
  clock_reads :: nat
  toLowerCase :: "js_string \<Rightarrow> js_string"

definition http_get_list :: "remote \<Rightarrow> string \<Rightarrow> (exn + IClientData list IApiResponse) \<times> remote" where
  "http_get_list w path =
     (answers_list w (length (requests w)), w\<lparr>requests := requests w @ [(''GET'', path, None)]\<rparr>)"

definition http_send ::
  "remote \<Rightarrow> string \<Rightarrow> string \<Rightarrow> (string \<times> string) list option
     \<Rightarrow> (exn + IClientData IApiResponse) \<times> remote" where
  "http_send w method path body =
     (answers_item w (length (requests w)), w\<lparr>requests := requests w @ [(method, path, body)]\<rparr>)"

definition Date_now :: "remote \<Rightarrow> int \<times> remote" where
  "Date_now w = (clock w (clock_reads w), w\<lparr>clock_reads := Suc (clock_reads w)\<rparr>)"

record ClientRepository =
  cache :: "ClientCollection option"
  cacheTimestamp :: "int option"
  cacheTTL :: int

definition isCacheValid :: "ClientRepository \<Rightarrow> remote \<Rightarrow> bool \<times> remote" where
  "isCacheValid repo w =
     (case (cache repo, cacheTimestamp repo) of
        (Some c, Some t) \<Rightarrow> (let (now, w1) = Date_now w in (now - t < cacheTTL repo, w1))
      | _ \<Rightarrow> (False, w))"

definition invalidateCache :: "ClientRepository \<Rightarrow> ClientRepository" where
  "invalidateCache repo = repo\<lparr>cache := None, cacheTimestamp := None\<rparr>"

text \<open>The part of \<open>findAll\<close> after the test of the cache.\<close>

definition fetch_all ::
  "ClientRepository \<Rightarrow> remote \<Rightarrow> (exn + ClientCollection) \<times> ClientRepository \<times> remote" where
  "fetch_all repo w =
     (let (result, w1) = http_get_list w ''/api/wireguard/client'' in
      case result of
        Inl e \<Rightarrow> (Inl e, repo, w1)
      | Inr response \<Rightarrow>
          (case (success response, data response) of
             (True, Some d) \<Rightarrow>
               (let col = fromRawData d; (now, w2) = Date_now w1
                in (Inr col, repo\<lparr>cache := Some col, cacheTimestamp := Some now\<rparr>, w2))
           | _ \<Rightarrow> (Inr (new_ClientCollection []), repo, w1)))"

text \<open>
  \<open>findAll\<close>. With \<open>forceRefresh\<close> the cache is not tested and the clock is not read.
  The cache is valid only when there is one, so the branch \<open>None\<close> under \<open>valid\<close> is never
  taken.
\<close>

definition findAll ::
  "bool \<Rightarrow> ClientRepository \<Rightarrow> remote \<Rightarrow> (exn + ClientCollection) \<times> ClientRepository \<times> remote" where
  "findAll forceRefresh repo w =
     (if forceRefresh then fetch_all repo w
      else (let (valid, w1) = isCacheValid repo w in
            if valid
            then (case cache repo of
                    Some c \<Rightarrow> (Inr c, repo, w1)
                  | None \<Rightarrow> fetch_all repo w1)
            else fetch_all repo w1))"

definition findById ::
  "string \<Rightarrow> ClientRepository \<Rightarrow> remote \<Rightarrow> (exn + Client) \<times> ClientRepository \<times> remote" where
  "findById i repo w =
     (case validateId i of
        Some e \<Rightarrow> (Inl e, repo, w)
      | None \<Rightarrow>
          (let (result, repo1, w1) = findAll False repo w in
           case result of
             Inl e \<Rightarrow> (Inl e, repo1, w1)
           | Inr col \<Rightarrow>
               (case get col i of
                  None \<Rightarrow> (Inl (ClientNotFoundException i), repo1, w1)
                | Some client \<Rightarrow> (Inr client, repo1, w1))))"

definition create ::
  "string \<Rightarrow> ClientRepository \<Rightarrow> remote \<Rightarrow> (exn + Client) \<times> ClientRepository \<times> remote" where
  "create dto_name repo w =
     (case validateClientName dto_name of
        Some e \<Rightarrow> (Inl e, repo, w)
      | None \<Rightarrow>
          (let (posted, w1) = http_send w ''POST'' ''/api/wireguard/client''
                                (Some [(''name'', dto_name)]) in
           case posted of
             Inl e \<Rightarrow> (Inl e, repo, w1)
           | Inr response \<Rightarrow>
               (let repo1 = invalidateCache repo in
                if \<not> success response
                then (Inl (JsError ''Error'' ''Failed to create client''), repo1, w1)
                else (let (result, repo2, w2) = findAll True repo1 w1 in
                      case result of
                        Inl e \<Rightarrow> (Inl e, repo2, w2)
                      | Inr col \<Rightarrow>
                          (case find (\<lambda>c. toLowerCase w (name c) = toLowerCase w (js dto_name))
                                  (rev (toArray col)) of
                             None \<Rightarrow>
                               (Inl (JsError ''Error''
                                      (''Failed to find created client with name: '' @ dto_name)),
                                repo2, w2)
                           | Some client \<Rightarrow> (Inr client, repo2, w2))))))"

definition delete ::
  "string \<Rightarrow> ClientRepository \<Rightarrow> remote \<Rightarrow> (exn + unit) \<times> ClientRepository \<times> remote" where
  "delete i repo w =
     (case validateId i of
        Some e \<Rightarrow> (Inl e, repo, w)
      | None \<Rightarrow>
          (let (deleted, w1) = http_send w ''DELETE'' (''/api/wireguard/client/'' @ i) None in
           case deleted of
             Inl e \<Rightarrow> (Inl e, repo, w1)
           | Inr response \<Rightarrow> (Inr (), invalidateCache repo, w1)))"

text \<open>
  The common tail of \<open>updateName\<close>, \<open>updateAddress\<close>, \<open>enable\<close> and \<open>disable\<close>, from the
  remote call on.
\<close>

definition send_update ::
  "string \<Rightarrow> string \<Rightarrow> string \<Rightarrow> (string \<times> string) list option
     \<Rightarrow> ClientRepository \<Rightarrow> remote \<Rightarrow> (exn + Client) \<times> ClientRepository \<times> remote" where
  "send_update i method path body repo w =
     (let (sent, w1) = http_send w method path body in
      case sent of
        Inl e \<Rightarrow> (Inl e, repo, w1)
      | Inr response \<Rightarrow>
          (let repo1 = invalidateCache repo in
           case (success response, data response) of
             (True, Some d) \<Rightarrow> (Inr (new_Client d), repo1, w1)
           | _ \<Rightarrow> findById i repo1 w1))"

definition updateName ::
  "string \<Rightarrow> string \<Rightarrow> ClientRepository \<Rightarrow> remote
     \<Rightarrow> (exn + Client) \<times> ClientRepository \<times> remote" where
  "updateName i n repo w =
     (case validateId i of
        Some e \<Rightarrow> (Inl e, repo, w)
      | None \<Rightarrow>
          (case validateClientName n of
             Some e \<Rightarrow> (Inl e, repo, w)
           | None \<Rightarrow>
               send_update i ''PUT'' (''/api/wireguard/client/'' @ i @ ''/name'')
                 (Some [(''name'', n)]) repo w))"

definition updateAddress ::
  "string \<Rightarrow> string \<Rightarrow> ClientRepository \<Rightarrow> remote
     \<Rightarrow> (exn + Client) \<times> ClientRepository \<times> remote" where
  "updateAddress i a repo w =
     (case validateId i of
        Some e \<Rightarrow> (Inl e, repo, w)
      | None \<Rightarrow>
          (case validateIPAddress a of
             Some e \<Rightarrow> (Inl e, repo, w)
           | None \<Rightarrow>
               send_update i ''PUT'' (''/api/wireguard/client/'' @ i @ ''/address'')
                 (Some [(''address'', a)]) repo w))"

definition enable ::
  "string \<Rightarrow> ClientRepository \<Rightarrow> remote \<Rightarrow> (exn + Client) \<times> ClientRepository \<times> remote" where
  "enable i repo w =
     (case validateId i of
        Some e \<Rightarrow> (Inl e, repo, w)
      | None \<Rightarrow>
          send_update i ''POST'' (''/api/wireguard/client/'' @ i @ ''/enable'') None repo w)"

definition disable ::
  "string \<Rightarrow> ClientRepository \<Rightarrow> remote \<Rightarrow> (exn + Client) \<times> ClientRepository \<times> remote" where
  "disable i repo w =
     (case validateId i of
        Some e \<Rightarrow> (Inl e, repo, w)
      | None \<Rightarrow>
          send_update i ''POST'' (''/api/wireguard/client/'' @ i @ ''/disable'') None repo w)"

section \<open>EventEmitter\<close>

datatype EventType =
    client_created | client_deleted | client_updated | client_enabled | client_disabled
  | auth_login | auth_logout | error_event

text \<open>
  A handler is a function object, known by its identity. What a handler does when it is
  called is given from outside: \<open>behaviour n h d\<close> is what handler \<open>h\<close> does when it is the
  \<open>n\<close>-th handler call of the run and receives \<open>d\<close>, namely the calls of \<open>on\<close> and \<open>off\<close>
  that it makes on the emitter, in order, and the exception it throws at the end, if any.
  (\<open>on\<close> and \<open>off\<close> are what the client gives a handler to reach the emitter; \<open>once\<close>
  is an \<open>on\<close> of a wrapper that first calls \<open>off\<close> for itself.)
\<close>

type_synonym EventHandler = nat

datatype action = On EventType EventHandler | Off EventType EventHandler


text \<open>
  A \<open>Set\<close> is the list of its entries in insertion order; \<open>delete\<close> empties an entry
  (\<open>None\<close>) and keeps its place, \<open>add\<close> appends a value that is not in the set. This is
  how the language defines sets, and it is what \<open>forEach\<close> observes when the set changes
  while it runs.
\<close>

definition Set_add :: "'a option list \<Rightarrow> 'a \<Rightarrow> 'a option list" where
  "Set_add es x = (if Some x \<in> set es then es else es @ [Some x])"

definition Set_delete :: "'a option list \<Rightarrow> 'a \<Rightarrow> 'a option list" where
  "Set_delete es x = map (\<lambda>e. if e = Some x then None else e) es"

text \<open>
  The emitter with what its run leaves behind: the log of the handler calls and the log of
  \<open>console.error\<close>.
\<close>

record 'd EventEmitter =
  handlers :: "EventType \<Rightarrow> EventHandler option list option"
  invoked :: "(EventHandler \<times> 'd) list"
  console_error :: "(EventType \<times> exn) list"

definition on :: "EventType \<Rightarrow> EventHandler \<Rightarrow> 'd EventEmitter \<Rightarrow> 'd EventEmitter" where
  "on event handler s =
     s\<lparr>handlers := (handlers s)
         (event := Some (Set_add (case handlers s event of None \<Rightarrow> [] | Some es \<Rightarrow> es) handler))\<rparr>"

definition off :: "EventType \<Rightarrow> EventHandler \<Rightarrow> 'd EventEmitter \<Rightarrow> 'd EventEmitter" where
  "off event handler s =
     (case handlers s event of
        None \<Rightarrow> s
      | Some es \<Rightarrow> s\<lparr>handlers := (handlers s)(event := Some (Set_delete es handler))\<rparr>)"

fun run_action :: "action \<Rightarrow> 'd EventEmitter \<Rightarrow> 'd EventEmitter" where
  "run_action (On event h) s = on event h s"
| "run_action (Off event h) s = off event h s"




definition eventHandlers :: "EventType \<Rightarrow> 'd EventEmitter \<Rightarrow> EventHandler option list" where
  "eventHandlers event s = (case handlers s event of None \<Rightarrow> [] | Some es \<Rightarrow> es)"


section \<open>Notions of the specification\<close>

text \<open>
  The definitions of this section follow the words of the specification, to be compared
  with the code above.
\<close>

text \<open>The slice \<open>[lo, hi)\<close> of a snapshot, intersected with the bounds of the snapshot.\<close>

definition slice_in_bounds :: "'a list \<Rightarrow> int \<Rightarrow> int \<Rightarrow> 'a list" where
  "slice_in_bounds xs lo hi =
     map (\<lambda>i. xs ! i) (filter (\<lambda>i. lo \<le> int i \<and> int i < hi) [0..<length xs])"

text \<open>
  A collection is well formed when its keys are distinct and every record is stored under
  its own id. Every collection that the constructor builds is well formed.
\<close>

definition wf_collection :: "ClientCollection \<Rightarrow> bool" where
  "wf_collection col =
     (distinct (map fst (clients col)) \<and> list_all (\<lambda>(k, c). k = client_id c) (clients col))"

text \<open>\<open>q\<close> is a substring of \<open>s\<close>: a contiguous part of it.\<close>

definition is_substring :: "'a list \<Rightarrow> 'a list \<Rightarrow> bool" where
  "is_substring q s = (\<exists>pre post. s = pre @ q @ post)"









text \<open>
  The search criterion: the lower-cased query is a substring of the lower-cased name, or
  the query as it is given is a substring of the address or of the public key.
\<close>

definition search_matches :: "(js_string \<Rightarrow> js_string) \<Rightarrow> js_string \<Rightarrow> Client \<Rightarrow> bool" where
  "search_matches lower q c =
     (is_substring (lower q) (lower (name c)) \<or> is_substring q (address c)
      \<or> is_substring q (publicKey c))"

text \<open>
  A transient failure of one attempt, where the attempt is given by what its \<open>fetch\<close>
  yields: the network fails (\<open>fetch\<close> rejects, not by the abort of the timeout) or the
  server answers with a status from 500 on. \<open>failure_of\<close> is the error that such an
  attempt raises.
\<close>

definition transient_failure :: "attempt \<Rightarrow> bool" where
  "transient_failure a =
     (case a of Rejected n m \<Rightarrow> n \<noteq> ''AbortError'' | Responded r \<Rightarrow> 500 \<le> status r)"

definition failure_of :: "attempt \<Rightarrow> exn" where
  "failure_of a =
     (case a of
        Rejected n m \<Rightarrow> JsError n m
      | Responded r \<Rightarrow> ServerException (''Server error: '' @ statusText r) (status r))"

text \<open>
  The \<open>k\<close>-th call of \<open>fetch\<close> is in time when the network takes less time over it
  than the timer of the timeout takes to fire; it fails transiently when it is in time
  and what the network does is a transient failure.
\<close>

definition in_time :: "HttpClient \<Rightarrow> 'a network \<Rightarrow> nat \<Rightarrow> bool" where
  "in_time hc w k = (latency w k < setTimeout_delay (timeout hc))"

definition fails_transiently :: "HttpClient \<Rightarrow> 'a network \<Rightarrow> nat \<Rightarrow> bool" where
  "fails_transiently hc w k = (in_time hc w k \<and> transient_failure (script w k))"

text \<open>The linear backoff: the delay after the \<open>k\<close>-th attempt is \<open>baseDelay * k\<close>.\<close>

definition backoff :: "int \<Rightarrow> nat \<Rightarrow> int list" where
  "backoff baseDelay n = map (\<lambda>k. baseDelay * (1 + int k)) [0..<n]"



text \<open>The value of the \<open>retry-after\<close> header as a number, 60 when the header is absent or empty.\<close>

definition retry_after_or_60 :: "response \<Rightarrow> int option" where
  "retry_after_or_60 r =
     (case headers r ''retry-after'' of
        None \<Rightarrow> Some 60
      | Some h \<Rightarrow> if h = [] then Some 60 else parseInt h)"

text \<open>The request that fetches the client list.\<close>

definition GET_clients :: http_request where
  "GET_clients = (''GET'', ''/api/wireguard/client'', None)"

text \<open>
  The snapshot that a refetch yields from an answer of the service: the records of a
  successful answer with a body, no record otherwise.
\<close>

definition snapshot_of :: "IClientData list IApiResponse \<Rightarrow> ClientCollection" where
  "snapshot_of r =
     (case (success r, data r) of
        (True, Some d) \<Rightarrow> fromRawData d
      | _ \<Rightarrow> new_ClientCollection [])"

text \<open>
  \<open>c\<close> is the newest record of the array \<open>xs\<close> whose name is \<open>n\<close> up to the case of letters
  (the two are equal once lowered by the platform): it matches, and no record after it
  does.
\<close>

definition same_name :: "(js_string \<Rightarrow> js_string) \<Rightarrow> string \<Rightarrow> Client \<Rightarrow> bool" where
  "same_name lower n c = (lower (name c) = lower (js n))"

definition is_newest_match ::
  "(js_string \<Rightarrow> js_string) \<Rightarrow> string \<Rightarrow> Client list \<Rightarrow> Client \<Rightarrow> bool" where
  "is_newest_match lower n xs c =
     (\<exists>pre post. xs = pre @ c # post \<and> same_name lower n c
        \<and> list_all (\<lambda>x. \<not> same_name lower n x) post)"

text \<open>
  The six mutating operations of the repository as one type, with the validation that
  each runs before its remote call and the operation it performs. The result of \<open>delete\<close>
  is \<open>None\<close>, that of the other operations the record they return.
\<close>

datatype mutation =
    Create string
  | Delete string
  | UpdateName string string
  | UpdateAddress string string
  | Enable string
  | Disable string

fun validation :: "mutation \<Rightarrow> exn option" where
  "validation (Create n) = validateClientName n"
| "validation (Delete i) = validateId i"
| "validation (UpdateName i n) =
     (case validateId i of Some e \<Rightarrow> Some e | None \<Rightarrow> validateClientName n)"
| "validation (UpdateAddress i a) =
     (case validateId i of Some e \<Rightarrow> Some e | None \<Rightarrow> validateIPAddress a)"
| "validation (Enable i) = validateId i"
| "validation (Disable i) = validateId i"

definition returning :: "(exn + 'a) \<times> 's \<Rightarrow> (exn + 'a option) \<times> 's" where
  "returning x = (case fst x of Inl e \<Rightarrow> (Inl e, snd x) | Inr v \<Rightarrow> (Inr (Some v), snd x))"

fun perform ::
  "mutation \<Rightarrow> ClientRepository \<Rightarrow> remote
     \<Rightarrow> (exn + Client option) \<times> ClientRepository \<times> remote" where
  "perform (Create n) repo w = returning (create n repo w)"
| "perform (Delete i) repo w =
     (case fst (delete i repo w) of
        Inl e \<Rightarrow> (Inl e, snd (delete i repo w))
      | Inr u \<Rightarrow> (Inr None, snd (delete i repo w)))"
| "perform (UpdateName i n) repo w = returning (updateName i n repo w)"
| "perform (UpdateAddress i a) repo w = returning (updateAddress i a repo w)"
| "perform (Enable i) repo w = returning (enable i repo w)"
| "perform (Disable i) repo w = returning (disable i repo w)"

text \<open>
  The snapshot that the call after call number \<open>k\<close> fetches when it is the \<open>GET\<close> of the
  list: the records of a successful answer with a body, and nothing when the call throws
  or its answer is not usable.
\<close>

definition refetched :: "remote \<Rightarrow> nat \<Rightarrow> ClientCollection option" where
  "refetched w k =
     (case answers_list w (Suc k) of
        Inl e \<Rightarrow> None
      | Inr r \<Rightarrow> if success r then map_option fromRawData (data r) else None)"

text \<open>
  Whether a mutation whose remote call has returned the answer \<open>resp\<close> goes on to fetch
  the list itself: \<open>create\<close> does when the answer reports success (it has to locate the
  new record), \<open>delete\<close> never does, and the four updates do unless the answer reports
  success and carries the record.
\<close>

fun refetches :: "mutation \<Rightarrow> IClientData IApiResponse \<Rightarrow> bool" where
  "refetches (Create n) resp = success resp"
| "refetches (Delete i) resp = False"
| "refetches (UpdateName i n) resp = (\<not> (success resp \<and> data resp \<noteq> None))"
| "refetches (UpdateAddress i a) resp = (\<not> (success resp \<and> data resp \<noteq> None))"
| "refetches (Enable i) resp = (\<not> (success resp \<and> data resp \<noteq> None))"
| "refetches (Disable i) resp = (\<not> (success resp \<and> data resp \<noteq> None))"

text \<open>The remote call of a mutation.\<close>

fun request_of :: "mutation \<Rightarrow> http_request" where
  "request_of (Create n) = (''POST'', ''/api/wireguard/client'', Some [(''name'', n)])"
| "request_of (Delete i) = (''DELETE'', ''/api/wireguard/client/'' @ i, None)"
| "request_of (UpdateName i n) =
     (''PUT'', ''/api/wireguard/client/'' @ i @ ''/name'', Some [(''name'', n)])"
| "request_of (UpdateAddress i a) =
     (''PUT'', ''/api/wireguard/client/'' @ i @ ''/address'', Some [(''address'', a)])"
| "request_of (Enable i) = (''POST'', ''/api/wireguard/client/'' @ i @ ''/enable'', None)"
| "request_of (Disable i) = (''POST'', ''/api/wireguard/client/'' @ i @ ''/disable'', None)"

text \<open>
  The handlers registered in a set, in the order of their registration; the event kind
  that an action is about; and the exceptions that the handlers \<open>hs\<close> throw when they
  are called one after the other, the first as handler call number \<open>n\<close>.
\<close>

definition registered :: "'a option list \<Rightarrow> 'a list" where
  "registered es = concat (map (\<lambda>e. case e of None \<Rightarrow> [] | Some x \<Rightarrow> [x]) es)"






section \<open>Example data\<close>

text \<open>
  A lowering for the examples: \<open>toLowerCase\<close> on the texts whose code units are below
  256 or one of the three Greek sigmas (the capital 931, the final small 962, the small
  963). A capital letter goes to its small letter, 32 code units further. The capital
  sigma goes to the final small sigma when a cased letter stands before it and none after
  it, where characters that case conversion ignores (such as the apostrophe and the full
  stop) are passed over on both sides, and to the small sigma otherwise; this is the rule
  \<open>Final_Sigma\<close> of the case conversion of Unicode, which the language takes over.
  Every other code unit is kept.
\<close>

definition is_cased :: "nat \<Rightarrow> bool" where
  "is_cased c =
     (65 \<le> c \<and> c \<le> 90 \<or> 97 \<le> c \<and> c \<le> 122 \<or> c = 170 \<or> c = 181 \<or> c = 186
      \<or> 192 \<le> c \<and> c \<le> 214 \<or> 216 \<le> c \<and> c \<le> 246 \<or> 248 \<le> c \<and> c \<le> 255
      \<or> c = 931 \<or> c = 962 \<or> c = 963)"

definition is_case_ignorable :: "nat \<Rightarrow> bool" where
  "is_case_ignorable c = (c \<in> set [39, 46, 58, 94, 96, 168, 173, 175, 180, 183, 184])"

definition lower_unit :: "nat \<Rightarrow> nat" where
  "lower_unit c =
     (if 65 \<le> c \<and> c \<le> 90 \<or> 192 \<le> c \<and> c \<le> 214 \<or> 216 \<le> c \<and> c \<le> 222
      then c + 32 else c)"

definition before_cased :: "js_string \<Rightarrow> bool" where
  "before_cased cs =
     (case dropWhile is_case_ignorable cs of [] \<Rightarrow> False | d # ds \<Rightarrow> is_cased d)"

fun lower_after :: "bool \<Rightarrow> js_string \<Rightarrow> js_string" where
  "lower_after after_cased [] = []"
| "lower_after after_cased (c # cs) =
     (if c = 931
      then (if after_cased \<and> \<not> before_cased cs then 962 else 963)
      else lower_unit c)
     # lower_after (if is_case_ignorable c then after_cased else is_cased c) cs"

definition example_toLowerCase :: "js_string \<Rightarrow> js_string" where
  "example_toLowerCase s = lower_after False s"

definition example_client :: "string \<Rightarrow> string \<Rightarrow> bool \<Rightarrow> int \<Rightarrow> Client" where
  "example_client i n e tx =
     \<lparr> client_id = i, name = js n, enabled = e, address = js ''10.8.0.2'',
       publicKey = js ''Kz0='', createdAt = Some 1000, updatedAt = Some 1000,
       downloadableConfig = True, persistentKeepalive = ''off'', latestHandshakeAt = None,
       transferRx = 0, transferTx = tx \<rparr>"

text \<open>A record whose name is the letter \<open>A\<close> followed by a capital sigma.\<close>

definition sigma_client :: Client where
  "sigma_client = (example_client ''id4'' ''A'' True 0)\<lparr>name := [65, 931]\<rparr>"

definition three_clients :: "Client list" where
  "three_clients =
     [example_client ''id1'' ''Laptop'' True 10,
      example_client ''id2'' ''phone'' False 0,
      example_client ''id3'' ''Tablet'' True 5]"


definition default_client :: HttpClient where
  "default_client = \<lparr> timeout = 30000, retryAttempts = 3, retryDelay = 1000 \<rparr>"

definition response_with :: "int \<Rightarrow> (string \<times> string) list \<Rightarrow> response" where
  "response_with s hs =
     \<lparr> status = s, statusText = ''status'', headers = map_of hs, body_text = Inr [] \<rparr>"

text \<open>A response with a JSON body.\<close>

definition json_response :: "int \<Rightarrow> string \<Rightarrow> response" where
  "json_response s t =
     \<lparr> status = s, statusText = ''status'',
       headers = map_of [(''content-type'', ''application/json; charset=utf-8'')],
       body_text = Inr t \<rparr>"

text \<open>
  A network that answers the first calls of \<open>fetch\<close> as listed and fails afterwards,
  each time after 50 milliseconds.
\<close>

definition network_of :: "attempt list \<Rightarrow> unit network" where
  "network_of as =
     \<lparr> script = (\<lambda>k. if k < length as then as ! k else Rejected ''TypeError'' ''fetch failed''),
       latency = (\<lambda>k. 50),
       JSON_parse = (\<lambda>t. Inl (''SyntaxError'', t)),
       of_text = (\<lambda>t. ()),
       fetches = 0,
       delays = [] \<rparr>"



text \<open>
  A network whose first answer, with status 200, takes 40 seconds; the answers after it
  take 50 milliseconds.
\<close>

definition slow_network :: "unit network" where
  "slow_network =
     (network_of [Responded (response_with 200 []), Responded (response_with 200 [])])
       \<lparr>latency := (\<lambda>k. if k = 0 then 40000 else 50)\<rparr>"

definition unauthorized_network :: "unit network" where
  "unauthorized_network =
     network_of [Responded (response_with 401 []), Responded (response_with 200 [])]"

definition rate_limited_network :: "unit network" where
  "rate_limited_network =
     network_of [Responded (response_with 500 []),
                 Responded (response_with 429 [(''retry-after'', ''120'')]),
                 Responded (response_with 200 [])]"

definition empty_repository :: ClientRepository where
  "empty_repository = \<lparr> cache = None, cacheTimestamp = None, cacheTTL = 5000 \<rparr>"

definition example_data :: "string \<Rightarrow> string \<Rightarrow> IClientData" where
  "example_data i n =
     \<lparr> data_id = i, data_name = js n, data_enabled = True, data_address = js ''10.8.0.2'',
       data_publicKey = js ''Kz0='', data_createdAt = Some 1000, data_updatedAt = Some 1000,
       data_downloadableConfig = True, data_persistentKeepalive = ''off'',
       data_latestHandshakeAt = None, data_transferRx = 0, data_transferTx = 0 \<rparr>"

text \<open>
  A service that answers every \<open>POST\<close>, \<open>PUT\<close> and \<open>DELETE\<close> with \<open>{success: true}\<close>
  and no record, and every \<open>GET\<close> of the list with the given answer, under a clock that
  stands still.
\<close>

definition service_answering :: "IClientData list IApiResponse \<Rightarrow> remote" where
  "service_answering r =
     \<lparr> answers_list = (\<lambda>k. Inr r),
       answers_item = (\<lambda>k. Inr \<lparr> success = True, data = None, statusCode = 200 \<rparr>),
       requests = [],
       clock = (\<lambda>k. 0),
       clock_reads = 0,
       toLowerCase = example_toLowerCase \<rparr>"

definition not_found_answer :: "IClientData list IApiResponse" where
  "not_found_answer = \<lparr> success = False, data = None, statusCode = 404 \<rparr>"

definition two_devices_answer :: "IClientData list IApiResponse" where
  "two_devices_answer =
     \<lparr> success = True,
       data = Some [example_data ''id1'' ''dev-1'', example_data ''id2'' ''Dev-1''],
       statusCode = 200 \<rparr>"

definition cached_repository :: ClientRepository where
  "cached_repository =
     \<lparr> cache = Some (new_ClientCollection three_clients), cacheTimestamp = Some 0,
       cacheTTL = 5000 \<rparr>"






section \<open>The host functions on examples\<close>

lemma js_example: "js ''Dev-1'' = [68, 101, 118, 45, 49]"
  by (simp add: js_def)

lemma js_eq_iff [simp]: "js a = js b \<longleftrightarrow> a = b"
proof -
  have "inj (of_char :: char \<Rightarrow> nat)" by (rule inj_on_inverseI [of _ char_of]) simp
  then show ?thesis unfolding js_def by (simp add: inj_map_eq_map)
qed

lemma js_simps [simp]: "js [] = []" "js (c # s) = of_char c # js s" "js (a @ b) = js a @ js b"
  by (simp_all add: js_def)

lemmas lowering_defs = is_cased_def is_case_ignorable_def lower_unit_def before_cased_def

lemma example_toLowerCase_examples:
  "example_toLowerCase (js ''Dev-1'') = js ''dev-1''"
  "example_toLowerCase [65, 931] = [97, 962]"
  "example_toLowerCase [931] = [963]"
  "example_toLowerCase [931, 65] = [963, 97]"
  "example_toLowerCase [65, 39, 931, 46] = [97, 39, 962, 46]"
  "example_toLowerCase [196, 222, 215] = [228, 254, 215]"
  by (simp_all add: example_toLowerCase_def lowering_defs)

lemma parseInt_examples:
  "parseInt '' 42abc'' = Some 42" "parseInt ''-7'' = Some (- 7)" "parseInt ''0x1F'' = Some 31"
  "parseInt ''abc'' = None" "parseInt '''' = None"
  by (simp_all add: parseInt_def is_whitespace_def digit_value_def)

lemma validateIPAddress_examples:
  "validateIPAddress ''10.8.0.2'' = None"
  "validateIPAddress ''10.8.0.2/24'' = None"
  "validateIPAddress ''10.8.0'' = Some (ValidationException ''address'' ''Invalid IP address format'')"
  by code_simp+

lemma validateClientName_rejects: "validateClientName ''my laptop'' \<noteq> None"
  by (simp add: validateClientName_def trim_def is_whitespace_def NAME_REGEX_test_def)

lemma validateId_rejects:
  "validateId '''' = Some (ValidationException ''id'' ''ID is required and must be a string'')"
  "validateId ''  '' = Some (ValidationException ''id'' ''ID cannot be empty'')"
  "validateId [CHR 0xA0] = Some (ValidationException ''id'' ''ID cannot be empty'')"
  by (simp_all add: validateId_def trim_def is_whitespace_def)

section \<open>Properties of the collection\<close>

subsection \<open>The Map behind a collection\<close>

lemma Map_set_keys:
  "map fst (Map_set m k v) = (if k \<in> fst ` set m then map fst m else map fst m @ [k])"
  by (induction m) force+

lemma Map_set_fresh: "k \<notin> fst ` set m \<Longrightarrow> Map_set m k v = m @ [(k, v)]"
  by (induction m) auto

lemma Map_set_distinct: "distinct (map fst m) \<Longrightarrow> distinct (map fst (Map_set m k v))"
  by (simp add: Map_set_keys)

lemma Map_set_values: "set (Map_set m k v) \<subseteq> insert (k, v) (set m)"
  by (induction m) (auto split: if_splits)

lemma foldl_Map_set_distinct:
  "distinct (map fst acc) \<Longrightarrow> distinct (map fst (foldl (\<lambda>m (k, v). Map_set m k v) acc es))"
  by (induction es arbitrary: acc) (auto simp: Map_set_distinct)

lemma foldl_Map_set_subset:
  "set (foldl (\<lambda>m (k, v). Map_set m k v) acc es) \<subseteq> set acc \<union> set es"
proof (induction es arbitrary: acc)
  case Nil
  then show ?case by simp
next
  case (Cons e es)
  obtain k v where e: "e = (k, v)" by (cases e)
  have "set (foldl (\<lambda>m (k, v). Map_set m k v) (Map_set acc k v) es)
        \<subseteq> set (Map_set acc k v) \<union> set es"
    by (rule Cons.IH)
  also have "\<dots> \<subseteq> insert (k, v) (set acc) \<union> set es"
    using Map_set_values [of acc k v] by auto
  finally show ?case by (auto simp: e)
qed

lemma foldl_Map_set_fresh:
  "distinct (map fst (acc @ es)) \<Longrightarrow> foldl (\<lambda>m (k, v). Map_set m k v) acc es = acc @ es"
proof (induction es arbitrary: acc)
  case Nil
  then show ?case by simp
next
  case (Cons e es)
  obtain k v where e: "e = (k, v)" by (cases e)
  from Cons.prems have fresh: "k \<notin> fst ` set acc" by (auto simp: e)
  from Cons.prems have "distinct (map fst ((acc @ [(k, v)]) @ es))" by (auto simp: e)
  then have "foldl (\<lambda>m (k, v). Map_set m k v) (acc @ [(k, v)]) es = (acc @ [(k, v)]) @ es"
    by (rule Cons.IH)
  then show ?case by (simp add: e Map_set_fresh [OF fresh])
qed

subsection \<open>Constructed collections are well formed\<close>

lemma wf_new_ClientCollection: "wf_collection (new_ClientCollection cs)"
proof -
  let ?es = "map (\<lambda>c. (client_id c, c)) cs"
  have "distinct (map fst (new_Map ?es))"
    unfolding new_Map_def by (rule foldl_Map_set_distinct) simp
  moreover have "set (new_Map ?es) \<subseteq> set ?es"
    unfolding new_Map_def using foldl_Map_set_subset [of "[]" ?es] by simp
  then have "list_all (\<lambda>(k, c). k = client_id c) (new_Map ?es)"
    by (auto simp: list_all_iff)
  ultimately show ?thesis by (simp add: wf_collection_def new_ClientCollection_def)
qed

lemma wf_distinct_ids: "wf_collection col \<Longrightarrow> distinct (map client_id (toArray col))"
proof -
  assume wf: "wf_collection col"
  have "map client_id (toArray col) = map fst (clients col)"
    using wf by (auto simp: wf_collection_def toArray_def list_all_iff)
  with wf show ?thesis by (simp add: wf_collection_def)
qed

lemma toArray_new_distinct:
  "distinct (map client_id cs) \<Longrightarrow> toArray (new_ClientCollection cs) = cs"
proof -
  assume d: "distinct (map client_id cs)"
  let ?es = "map (\<lambda>c. (client_id c, c)) cs"
  have "map fst ?es = map client_id cs" by (simp add: comp_def)
  with d have "distinct (map fst ([] @ ?es))" by (simp add: comp_def)
  then have "new_Map ?es = [] @ ?es" unfolding new_Map_def by (rule foldl_Map_set_fresh)
  then show ?thesis by (simp add: toArray_def new_ClientCollection_def comp_def)
qed

lemma toArray_filter_collection:
  "wf_collection col \<Longrightarrow> toArray (filter_collection col P) = filter P (toArray col)"
  unfolding filter_collection_def
  by (rule toArray_new_distinct) (simp add: wf_distinct_ids distinct_map_filter)

lemma toArray_length: "length (toArray col) = size_of col"
  by (simp add: toArray_def size_of_def)

lemma toArray_three_clients: "toArray (new_ClientCollection three_clients) = three_clients"
  by (rule toArray_new_distinct) (simp add: three_clients_def example_client_def)

lemma size_three_clients: "size_of (new_ClientCollection three_clients) = 3"
proof -
  have "size_of (new_ClientCollection three_clients)
      = length (toArray (new_ClientCollection three_clients))"
    by (simp only: toArray_length)
  also have "\<dots> = length three_clients" by (simp only: toArray_three_clients)
  also have "\<dots> = 3" by (simp add: three_clients_def)
  finally show ?thesis .
qed

subsection \<open>paginate\<close>

lemma filter_range_upt:
  "filter (\<lambda>i. a \<le> i \<and> i < b) [0..<n] = [a..<min b n]"
proof (induction n)
  case 0
  then show ?case by simp
next
  case (Suc n)
  then show ?case by (auto simp: min_def upt_conv_Nil not_le less_Suc_eq_le  le_Suc_eq)
qed

lemma map_nth_range:
  "b \<le> length xs \<Longrightarrow> map (\<lambda>i. xs ! i) [a..<b] = take (b - a) (drop a xs)"
  by (rule nth_equalityI) auto

lemma js_slice_nonneg:
  assumes "0 \<le> lo" and "lo \<le> hi"
  shows "js_slice xs lo hi = slice_in_bounds xs lo hi"
proof -
  let ?n = "length xs"
  have f: "filter (\<lambda>i. lo \<le> int i \<and> int i < hi) [0..<?n]
         = filter (\<lambda>i. nat lo \<le> i \<and> i < nat hi) [0..<?n]"
    using assms(1) by (intro filter_cong) auto
  have s: "slice_in_bounds xs lo hi = take (min (nat hi) ?n - nat lo) (drop (nat lo) xs)"
    unfolding slice_in_bounds_def f filter_range_upt by (simp add: map_nth_range)
  have j: "js_slice xs lo hi
      = take (nat (min hi (int ?n) - min lo (int ?n))) (drop (nat (min lo (int ?n))) xs)"
    using assms by (simp add: js_slice_def Let_def)
  have a: "nat (min hi (int ?n) - min lo (int ?n)) = min (nat hi) ?n - min (nat lo) ?n"
    using assms by (simp add: min_def) linarith
  have b: "nat (min lo (int ?n)) = min (nat lo) ?n"
    using assms(1) by (simp add: min_def) linarith
  have c: "take (min (nat hi) ?n - min (nat lo) ?n) (drop (min (nat lo) ?n) xs)
        = take (min (nat hi) ?n - nat lo) (drop (nat lo) xs)"
    by (cases "nat lo \<le> ?n") (simp_all add: min_def)
  show ?thesis unfolding j a b c s ..
qed

lemma js_slice_page_zero:
  assumes "0 < L"
  shows "js_slice xs (- L) 0 = []" and "slice_in_bounds xs (- L) 0 = []"
  using assms by (simp_all add: js_slice_def slice_in_bounds_def Let_def)

lemma length_js_slice_nonneg:
  assumes "0 \<le> lo" "lo \<le> hi"
  shows "int (length (js_slice xs lo hi)) = min hi (int (length xs)) - min lo (int (length xs))"
  using assms by (auto simp: js_slice_def Let_def min_def)


lemma Math_ceil_div_pos:
  "0 < L \<Longrightarrow> Math_ceil_div n L = Finite \<lceil>(of_int n :: real) / of_int L\<rceil>"
  by (simp add: Math_ceil_div_def)

lemma ceiling_div_upper:
  assumes "0 < (L::int)"
  shows "S \<le> \<lceil>(of_int S :: real) / of_int L\<rceil> * L"
proof -
  have "(of_int S :: real) / of_int L \<le> of_int \<lceil>(of_int S :: real) / of_int L\<rceil>"
    by (rule le_of_int_ceiling)
  moreover have "0 < (of_int L :: real)" using assms by simp
  ultimately have "(of_int S :: real) \<le> of_int \<lceil>(of_int S :: real) / of_int L\<rceil> * of_int L"
    by (simp only: pos_divide_le_eq)
  then have "(of_int S :: real) \<le> of_int (\<lceil>(of_int S :: real) / of_int L\<rceil> * L)"
    by simp
  then show ?thesis by (simp only: of_int_le_iff)
qed

lemma ceiling_div_lower:
  assumes "0 < (L::int)"
  shows "(\<lceil>(of_int S :: real) / of_int L\<rceil> - 1) * L < S"
proof -
  have "of_int \<lceil>(of_int S :: real) / of_int L\<rceil> - 1 < (of_int S :: real) / of_int L"
    by linarith
  with assms have "(of_int \<lceil>(of_int S :: real) / of_int L\<rceil> - 1) * of_int L < (of_int S :: real)"
    by (simp add: pos_less_divide_eq)
  then have "(of_int ((\<lceil>(of_int S :: real) / of_int L\<rceil> - 1) * L) :: real) < of_int S"
    by simp
  then show ?thesis by (simp only: of_int_less_iff)
qed

lemma items_paginate:
  "items (paginate col p L) = js_slice (toArray col) ((p - 1) * L) ((p - 1) * L + L)"
  by (simp add: paginate_def Let_def)

lemma length_items_paginate:
  assumes "0 < L" and "1 \<le> q"
  shows "int (length (items (paginate col q L)))
       = min (q * L) (int (size_of col)) - min ((q - 1) * L) (int (size_of col))"
proof -
  have "0 \<le> (q - 1) * L" using assms by simp
  moreover have "(q - 1) * L \<le> (q - 1) * L + L" using assms by simp
  ultimately have "int (length (js_slice (toArray col) ((q - 1) * L) ((q - 1) * L + L)))
      = min ((q - 1) * L + L) (int (length (toArray col)))
        - min ((q - 1) * L) (int (length (toArray col)))"
    by (rule length_js_slice_nonneg)
  moreover have "(q - 1) * L + L = q * L" by (simp add: algebra_simps)
  ultimately show ?thesis by (simp add: items_paginate toArray_length)
qed

lemma sum_pages_upto:
  assumes "0 < L"
  shows "(\<Sum>q = 1..int n. int (length (items (paginate col q L))))
       = min (int n * L) (int (size_of col))"
proof (induction n)
  case 0
  then show ?case by simp
next
  case (Suc n)
  have split: "{1..int (Suc n)} = insert (int n + 1) {1..int n}" by auto
  have len: "int (length (items (paginate col (int n + 1) L)))
       = min ((int n + 1) * L) (int (size_of col)) - min (int n * L) (int (size_of col))"
    using length_items_paginate [OF assms, of "int n + 1" col] by simp
  have "(\<Sum>q \<in> insert (int n + 1) {1..int n}. int (length (items (paginate col q L))))
      = int (length (items (paginate col (int n + 1) L)))
        + (\<Sum>q = 1..int n. int (length (items (paginate col q L))))"
    by (rule sum.insert) auto
  also have "\<dots> = min ((int n + 1) * L) (int (size_of col))"
    unfolding Suc.IH len by simp
  finally show ?case
    unfolding split by (simp add: algebra_simps)
qed

lemma sum_all_pages:
  assumes "0 < L"
  shows "(\<Sum>q = 1..\<lceil>(of_int (int (size_of col)) :: real) / of_int L\<rceil>.
            int (length (items (paginate col q L)))) = int (size_of col)"
proof -
  let ?S = "int (size_of col)"
  let ?tp = "\<lceil>(of_int ?S :: real) / of_int L\<rceil>"
  have "0 \<le> (of_int ?S :: real) / of_int L" using assms by simp
  then have nonneg: "0 \<le> ?tp" by (simp add: ceiling_le_iff le_ceiling_iff) 
  have "(\<Sum>q = 1..int (nat ?tp). int (length (items (paginate col q L))))
      = min (int (nat ?tp) * L) ?S"
    by (rule sum_pages_upto [OF assms])
  moreover have "?S \<le> ?tp * L" by (rule ceiling_div_upper [OF assms])
  ultimately show ?thesis using nonneg by simp
qed

lemma full_pages:
  assumes "0 < L" and "1 \<le> q" and "q < \<lceil>(of_int (int (size_of col)) :: real) / of_int L\<rceil>"
  shows "int (length (items (paginate col q L))) = L"
proof -
  let ?S = "int (size_of col)"
  let ?tp = "\<lceil>(of_int ?S :: real) / of_int L\<rceil>"
  have "q * L \<le> (?tp - 1) * L" using assms by (intro mult_right_mono) auto
  also have "\<dots> < ?S" by (rule ceiling_div_lower [OF assms(1)])
  finally have a: "q * L < ?S" .
  have "(q - 1) * L \<le> q * L" using assms by (intro mult_right_mono) auto
  with a have b: "(q - 1) * L < ?S" by simp
  show ?thesis
    using a b by (simp add: length_items_paginate [OF assms(1,2)] min_def algebra_simps)
qed

lemma page_beyond_last:
  assumes "0 < L" and "\<lceil>(of_int (int (size_of col)) :: real) / of_int L\<rceil> < q"
  shows "items (paginate col q L) = []"
proof -
  let ?S = "int (size_of col)"
  let ?tp = "\<lceil>(of_int ?S :: real) / of_int L\<rceil>"
  have "0 \<le> (of_int ?S :: real) / of_int L" using assms by simp
  then have nonneg: "0 \<le> ?tp" by linarith
  with assms(2) have q1: "1 \<le> q" by linarith
  have "?S \<le> ?tp * L" by (rule ceiling_div_upper [OF assms(1)])
  also have "\<dots> \<le> (q - 1) * L" using assms by (intro mult_right_mono) auto
  finally have a: "?S \<le> (q - 1) * L" .
  have "(q - 1) * L \<le> q * L" using assms q1 by (intro mult_right_mono) auto
  with a have b: "?S \<le> q * L" by simp
  have "int (length (items (paginate col q L))) = 0"
    using a b by (simp add: length_items_paginate [OF assms(1) q1] min_def)
  then show ?thesis by simp
qed

lemma page_zero:
  assumes "0 < L"
  shows "items (paginate col 0 L) = []"
    and "slice_in_bounds (toArray col) ((0 - 1) * L) ((0 - 1) * L + L) = []"
  using js_slice_page_zero [OF assms] by (simp_all add: items_paginate)

text \<open>
  Claim C6, as the code has it. For every collection of size \<open>S\<close>, every limit \<open>L > 0\<close>
  and every page number \<open>p \<ge> 0\<close>: \<open>totalPages\<close> is \<open>ceil(S / L)\<close>; the items are the
  slice \<open>[(p - 1) * L, (p - 1) * L + L)\<close> of the snapshot intersected with its bounds;
  \<open>hasNext\<close> is \<open>p < totalPages\<close> and \<open>hasPrev\<close> is \<open>p > 1\<close>; the item counts of the
  pages \<open>1..ceil(S / L)\<close> sum to \<open>S\<close> and every page before the last holds exactly \<open>L\<close>
  items; a page beyond the last one, and page \<open>0\<close>, has no items. The function is total,
  so no page raises. (A negative page number is read by \<open>slice\<close> from the end of the
  snapshot and can return items, see the counterexample below.)
\<close>

theorem paginate_law:
  assumes "0 < L" and "0 \<le> p"
  shows "totalPages (paginate col p L) = Finite \<lceil>(of_int (int (size_of col)) :: real) / of_int L\<rceil>
       \<and> items (paginate col p L)
           = slice_in_bounds (toArray col) ((p - 1) * L) ((p - 1) * L + L)
       \<and> hasNext (paginate col p L) = (p < \<lceil>(of_int (int (size_of col)) :: real) / of_int L\<rceil>)
       \<and> hasPrev (paginate col p L) = (p > 1)
       \<and> (\<Sum>q = 1..\<lceil>(of_int (int (size_of col)) :: real) / of_int L\<rceil>.
              int (length (items (paginate col q L)))) = int (size_of col)
       \<and> (\<forall>q. 1 \<le> q \<and> q < \<lceil>(of_int (int (size_of col)) :: real) / of_int L\<rceil>
              \<longrightarrow> int (length (items (paginate col q L))) = L)
       \<and> (p < 1 \<or> \<lceil>(of_int (int (size_of col)) :: real) / of_int L\<rceil> < p
              \<longrightarrow> items (paginate col p L) = [])"
proof -
  let ?tp = "\<lceil>(of_int (int (size_of col)) :: real) / of_int L\<rceil>"
  have pages: "totalPages (paginate col p L) = Finite ?tp"
    by (simp add: paginate_def Let_def Math_ceil_div_pos [OF assms(1)])
  have slice: "items (paginate col p L)
      = slice_in_bounds (toArray col) ((p - 1) * L) ((p - 1) * L + L)"
  proof (cases "p = 0")
    case True
    then show ?thesis using page_zero [OF assms(1), of col] by simp
  next
    case False
    with assms have "0 \<le> (p - 1) * L" and "(p - 1) * L \<le> (p - 1) * L + L" by simp_all
    then show ?thesis unfolding items_paginate by (rule js_slice_nonneg)
  qed
  have "next": "hasNext (paginate col p L) = (p < ?tp)"
    by (simp add: paginate_def Let_def Math_ceil_div_pos [OF assms(1)])
  have prev: "hasPrev (paginate col p L) = (p > 1)"
    by (simp add: paginate_def Let_def)
  have total: "(\<Sum>q = 1..?tp. int (length (items (paginate col q L)))) = int (size_of col)"
    by (rule sum_all_pages [OF assms(1)])
  have full: "\<forall>q. 1 \<le> q \<and> q < ?tp \<longrightarrow> int (length (items (paginate col q L))) = L"
    using full_pages [OF assms(1)] by blast
  have out: "p < 1 \<or> ?tp < p \<longrightarrow> items (paginate col p L) = []"
  proof
    assume "p < 1 \<or> ?tp < p"
    then show "items (paginate col p L) = []"
    proof
      assume "p < 1"
      with assms(2) have "p = 0" by simp
      then show ?thesis using page_zero(1) [OF assms(1), of col] by simp
    next
      assume "?tp < p"
      then show ?thesis by (rule page_beyond_last [OF assms(1)])
    qed
  qed
  from pages slice "next" prev total full out show ?thesis by (intro conjI)
qed

theorem paginate_law_witness:
  "(0::int) < 2 \<and> (0::int) \<le> 2
   \<and> totalPages (paginate (new_ClientCollection three_clients) 2 2) = Finite 2
   \<and> items (paginate (new_ClientCollection three_clients) 2 2)
       = slice_in_bounds three_clients 2 4
   \<and> hasNext (paginate (new_ClientCollection three_clients) 2 2) = False
   \<and> hasPrev (paginate (new_ClientCollection three_clients) 2 2) = True
   \<and> (\<Sum>q = 1..2. int (length (items (paginate (new_ClientCollection three_clients) q 2)))) = 3"
  using paginate_law [of 2 2 "new_ClientCollection three_clients"]
  by (simp add: size_three_clients toArray_three_clients)

text \<open>
  The claim as stated fails for a negative page number: on three records with limit \<open>1\<close>,
  page \<open>-1\<close> is out of range, its bounded slice \<open>[-2, -1)\<close> is empty, and
  \<open>paginate\<close> returns the second record, because \<open>slice(-2, -1)\<close> counts from the end.
\<close>

theorem paginate_negative_page_counterexample:
  "items (paginate (new_ClientCollection three_clients) (- 1) 1)
     = [example_client ''id2'' ''phone'' False 0]
   \<and> items (paginate (new_ClientCollection three_clients) (- 1) 1) \<noteq> []
   \<and> items (paginate (new_ClientCollection three_clients) (- 1) 1)
     \<noteq> slice_in_bounds (toArray (new_ClientCollection three_clients))
         ((- 1 - 1) * 1) ((- 1 - 1) * 1 + 1)"
proof -
  have a: "items (paginate (new_ClientCollection three_clients) (- 1) 1)
      = [example_client ''id2'' ''phone'' False 0]"
    unfolding items_paginate toArray_three_clients
    by (simp add: js_slice_def Let_def three_clients_def)
  have b: "slice_in_bounds (toArray (new_ClientCollection three_clients))
      ((- 1 - 1) * 1) ((- 1 - 1) * 1 + 1) = []"
    by (simp add: slice_in_bounds_def)
  show ?thesis unfolding a b by simp
qed

subsection \<open>Substrings\<close>

lemma includes_str_iff: "includes_str s q \<longleftrightarrow> is_substring q s"
proof (induction s)
  case Nil
  show ?case by (simp add: is_substring_def)
next
  case (Cons c s)
  have "is_substring q (c # s) \<longleftrightarrow> (\<exists>post. c # s = q @ post) \<or> is_substring q s"
  proof
    assume "is_substring q (c # s)"
    then obtain pre post where eq: "c # s = pre @ q @ post" by (auto simp: is_substring_def)
    show "(\<exists>post. c # s = q @ post) \<or> is_substring q s"
    proof (cases pre)
      case Nil
      with eq show ?thesis by auto
    next
      case (Cons a pre')
      with eq have "s = pre' @ q @ post" by simp
      then show ?thesis by (auto simp: is_substring_def)
    qed
  next
    assume "(\<exists>post. c # s = q @ post) \<or> is_substring q s"
    then show "is_substring q (c # s)"
    proof
      assume "\<exists>post. c # s = q @ post"
      then obtain post where "c # s = [] @ q @ post" by auto
      then show ?thesis unfolding is_substring_def by blast
    next
      assume "is_substring q s"
      then obtain pre post where "s = pre @ q @ post" by (auto simp: is_substring_def)
      then have "c # s = (c # pre) @ q @ post" by simp
      then show ?thesis unfolding is_substring_def by blast
    qed
  qed
  moreover have "(\<exists>post. c # s = q @ post) \<longleftrightarrow> take (length q) (c # s) = q"
  proof
    assume "\<exists>post. c # s = q @ post"
    then obtain post where "c # s = q @ post" ..
    then show "take (length q) (c # s) = q" by simp
  next
    assume "take (length q) (c # s) = q"
    then have "c # s = q @ drop (length q) (c # s)"
      by (metis append_take_drop_id)
    then show "\<exists>post. c # s = q @ post" ..
  qed
  ultimately show ?case using Cons.IH by simp
qed




lemma search_matches_eval:
  "search_matches lower q c = (includes_str (lower (name c)) (lower q)
       \<or> includes_str (address c) q \<or> includes_str (publicKey c) q)"
  unfolding search_matches_def includes_str_iff ..

subsection \<open>filterBy\<close>



subsection \<open>search\<close>

text \<open>
  Claim C8, as the code has it. Whatever the lowering of the platform is, \<open>search q\<close>
  returns, in their order, exactly the records for which the lower-cased \<open>q\<close> is a
  substring of the lower-cased name, or \<open>q\<close> as it is given is a substring of the
  address, or of the public key.
\<close>

theorem search_exact:
  "toArray (search lower (new_ClientCollection cs) q)
     = filter (search_matches lower q) (toArray (new_ClientCollection cs))
   \<and> (c \<in> set (toArray (search lower (new_ClientCollection cs) q))
        \<longleftrightarrow> c \<in> set (toArray (new_ClientCollection cs)) \<and> search_matches lower q c)"
proof -
  have pred: "(\<lambda>c. includes_str (lower (name c)) (lower q)
                 \<or> includes_str (address c) q \<or> includes_str (publicKey c) q)
            = search_matches lower q"
    unfolding search_matches_def includes_str_iff ..
  have "toArray (search lower (new_ClientCollection cs) q)
      = filter (search_matches lower q) (toArray (new_ClientCollection cs))"
    unfolding search_def Let_def pred
    by (rule toArray_filter_collection) (rule wf_new_ClientCollection)
  then show ?thesis by simp
qed

theorem search_exact_witness:
  "toArray (search example_toLowerCase (new_ClientCollection three_clients) (js ''PHO''))
     = [example_client ''id2'' ''phone'' False 0]
   \<and> example_client ''id2'' ''phone'' False 0
       \<in> set (toArray (search example_toLowerCase (new_ClientCollection three_clients)
                          (js ''PHO'')))"
proof -
  let ?c = "example_client ''id2'' ''phone'' False 0"
  note inst = search_exact [of example_toLowerCase three_clients "js ''PHO''" ?c,
      unfolded toArray_three_clients]
  have sel: "filter (search_matches example_toLowerCase (js ''PHO'')) three_clients = [?c]"
    unfolding search_matches_eval
    by (simp add: three_clients_def example_client_def example_toLowerCase_def lowering_defs)
  from inst sel show ?thesis by simp
qed

text \<open>
  The claim as stated fails: lowering a text is not lowering its letters one by one. The
  record named \<open>A\<close> followed by a capital sigma has the query that is a capital sigma as
  a substring of its name, with the very case of the query, and \<open>search\<close> does not return
  it: in the name the sigma ends a word and is lowered to the final small sigma, alone it
  is lowered to the small sigma.
\<close>

theorem search_final_sigma_counterexample:
  "name sigma_client = [65, 931]
   \<and> is_substring [931] (name sigma_client)
   \<and> example_toLowerCase (name sigma_client) = [97, 962]
   \<and> example_toLowerCase [931] = [963]
   \<and> toArray (new_ClientCollection [sigma_client]) = [sigma_client]
   \<and> toArray (search example_toLowerCase (new_ClientCollection [sigma_client]) [931]) = []"
proof -
  have n: "name sigma_client = [65, 931]" by (simp add: sigma_client_def)
  have sub: "is_substring [931] (name sigma_client)"
    unfolding n is_substring_def by (rule exI [of _ "[65]"], rule exI [of _ "[]"]) simp
  have arr: "toArray (new_ClientCollection [sigma_client]) = [sigma_client]"
    by (rule toArray_new_distinct) simp
  have "toArray (search example_toLowerCase (new_ClientCollection [sigma_client]) [931])
      = filter (\<lambda>c. includes_str (example_toLowerCase (name c)) (example_toLowerCase [931])
                    \<or> includes_str (address c) [931] \<or> includes_str (publicKey c) [931])
          (toArray (new_ClientCollection [sigma_client]))"
    unfolding search_def Let_def
    by (rule toArray_filter_collection) (rule wf_new_ClientCollection)
  also have "\<dots> = []"
    unfolding arr
    by (simp add: sigma_client_def example_client_def example_toLowerCase_examples)
  finally show ?thesis
    using n sub arr by (simp add: example_toLowerCase_examples)
qed

section \<open>Properties of the transport\<close>

declare request_loop.simps [simp del]

lemma read_data_frame [simp]:
  "read_data (w\<lparr>fetches := n\<rparr>) r = read_data w r"
  "read_data (w\<lparr>delays := ds\<rparr>) r = read_data w r"
  by (simp_all add: read_data_def split: sum.splits)

lemma try_block_frame [simp]:
  "try_block (w\<lparr>fetches := n\<rparr>) a = try_block w a"
  "try_block (w\<lparr>delays := ds\<rparr>) a = try_block w a"
  by (simp_all add: try_block_def split: attempt.splits)

lemma fetch_frame [simp]:
  "fetch hc (w\<lparr>fetches := n\<rparr>) k = fetch hc w k"
  "fetch hc (w\<lparr>delays := ds\<rparr>) k = fetch hc w k"
  by (simp_all add: fetch_def)

lemma fetch_in_time: "in_time hc w k \<Longrightarrow> fetch hc w k = script w k"
  by (simp add: fetch_def in_time_def)

lemma fetch_fails_transiently:
  "fails_transiently hc w k \<Longrightarrow> transient_failure (fetch hc w k)"
  "fails_transiently hc w k \<Longrightarrow> failure_of (fetch hc w k) = failure_of (script w k)"
  by (simp_all add: fails_transiently_def fetch_in_time)

lemma fetch_aborted:
  assumes "0 < timeout hc" and "timeout hc < latency w k"
  shows "fetch hc w k = Rejected ''AbortError'' ''This operation was aborted''"
  using assms by (simp add: fetch_def setTimeout_delay_def)

lemma try_block_transient:
  "transient_failure a \<Longrightarrow> try_block w a = Inl (failure_of a)"
  by (auto simp: transient_failure_def failure_of_def try_block_def platform_error_def
      split: attempt.splits)

lemma failure_of_retriable:
  "transient_failure a \<Longrightarrow>
     \<not> is_UnauthorizedException (failure_of a) \<and> \<not> is_RateLimitException (failure_of a)
     \<and> exn_name (failure_of a) \<noteq> ''AbortError''"
  by (auto simp: transient_failure_def failure_of_def split: attempt.splits)


lemma request_loop_raises:
  assumes "attempt \<le> retryAttempts hc" and "try_block w (fetch hc w (fetches w)) = Inl e"
    and "is_UnauthorizedException e \<or> is_RateLimitException e"
  shows "request_loop hc attempt le w = (Inl e, w\<lparr>fetches := Suc (fetches w)\<rparr>)"
  using assms by (subst request_loop.simps) (auto simp: Let_def)

lemma request_loop_times_out:
  assumes "attempt \<le> retryAttempts hc" and "fetch hc w (fetches w) = Rejected ''AbortError'' m"
  shows "request_loop hc attempt le w
       = (Inl (TimeoutException (timeout hc)), w\<lparr>fetches := Suc (fetches w)\<rparr>)"
  using assms by (subst request_loop.simps) (simp add: Let_def try_block_def platform_error_def)

lemma request_loop_retries:
  assumes "attempt \<le> retryAttempts hc" and "transient_failure (fetch hc w (fetches w))"
  shows "request_loop hc attempt le w
       = request_loop hc (attempt + 1) (Some (failure_of (fetch hc w (fetches w))))
           (if attempt < retryAttempts hc
            then w\<lparr>fetches := Suc (fetches w), delays := delays w @ [retryDelay hc * attempt]\<rparr>
            else w\<lparr>fetches := Suc (fetches w)\<rparr>)"
  using assms(1) try_block_transient [OF assms(2), of w] failure_of_retriable [OF assms(2)]
  by (subst request_loop.simps) (simp add: Let_def)


lemma map_upt_Suc_front: "map f [0..<Suc n] = f 0 # map (\<lambda>k. f (Suc k)) [0..<n]"
proof -
  have "[0..<Suc n] = 0 # map Suc [0..<n]"
    by (simp only: map_Suc_upt upt_conv_Cons zero_less_Suc)
  then show ?thesis by (simp only: list.map map_map comp_def)
qed

lemma request_loop_transient:
  assumes "\<forall>k<N. transient_failure (fetch hc w (fetches w + k))"
    and "attempt + int N \<le> retryAttempts hc"
  shows "request_loop hc attempt le w
       = request_loop hc (attempt + int N)
           (if N = 0 then le else Some (failure_of (fetch hc w (fetches w + N - 1))))
           (w\<lparr>fetches := fetches w + N,
              delays := delays w @ map (\<lambda>k. retryDelay hc * (attempt + int k)) [0..<N]\<rparr>)"
  using assms
proof (induction N arbitrary: attempt le w)
  case 0
  then show ?case by simp
next
  case (Suc N)
  let ?w = "w\<lparr>fetches := Suc (fetches w), delays := delays w @ [retryDelay hc * attempt]\<rparr>"
  from Suc.prems have first: "transient_failure (fetch hc w (fetches w))" by force
  from Suc.prems have lt: "attempt < retryAttempts hc" by simp
  have rest: "\<forall>k<N. transient_failure (fetch hc ?w (fetches ?w + k))"
    using Suc.prems(1) by auto
  have bound: "(attempt + 1) + int N \<le> retryAttempts hc" using Suc.prems(2) by simp
  have "request_loop hc attempt le w
      = request_loop hc (attempt + 1) (Some (failure_of (fetch hc w (fetches w)))) ?w"
    using request_loop_retries [OF _ first, where attempt = attempt and le = le] lt by simp
  also have "\<dots> = request_loop hc ((attempt + 1) + int N)
           (if N = 0 then Some (failure_of (fetch hc w (fetches w)))
            else Some (failure_of (fetch hc ?w (fetches ?w + N - 1))))
           (?w\<lparr>fetches := fetches ?w + N,
              delays := delays ?w @ map (\<lambda>k. retryDelay hc * ((attempt + 1) + int k)) [0..<N]\<rparr>)"
    by (rule Suc.IH [OF rest bound])
  also have "\<dots> = request_loop hc (attempt + int (Suc N))
           (if Suc N = 0 then le else Some (failure_of (fetch hc w (fetches w + Suc N - 1))))
           (w\<lparr>fetches := fetches w + Suc N,
              delays := delays w @ map (\<lambda>k. retryDelay hc * (attempt + int k)) [0..<Suc N]\<rparr>)"
  proof -
    have d: "map (\<lambda>k. retryDelay hc * (attempt + int k)) [0..<Suc N]
           = (retryDelay hc * attempt) # map (\<lambda>k. retryDelay hc * ((attempt + 1) + int k)) [0..<N]"
      by (simp only: map_upt_Suc_front) (simp add: algebra_simps)
    show ?thesis
      unfolding d by (cases N) (simp_all add: algebra_simps)
  qed
  finally show ?case .
qed




lemma default_client_facts:
  "timeout default_client = 30000" "retryAttempts default_client = 3"
  "retryDelay default_client = 1000"
  by (simp_all add: default_client_def)

lemma setTimeout_delay_default [simp]: "setTimeout_delay (timeout default_client) = 30000"
  by (simp add: setTimeout_delay_def default_client_def)

lemma in_time_default:
  "latency w k = 50 \<Longrightarrow> in_time default_client w k"
  by (simp add: in_time_def)



lemma transient_examples:
  "transient_failure (Responded (response_with 500 hs))"
  "transient_failure (Responded (response_with 503 hs))"
  "transient_failure (Rejected ''TypeError'' m)"
  by (simp_all add: transient_failure_def response_with_def)

lemma try_block_200:
  "try_block w (Responded (response_with 200 []))
     = Inr \<lparr>success = True, data = None, statusCode = 200\<rparr>"
  by (simp add: try_block_def response_with_def read_data_def ok_def)


lemma status_json_response [simp]: "status (json_response s t) = s"
  by (simp add: json_response_def)



lemma parseInt_60: "parseInt ''60'' = Some 60"
  by (simp add: parseInt_def is_whitespace_def digit_value_def)

lemma parseInt_120: "parseInt ''120'' = Some 120"
  by (simp add: parseInt_def is_whitespace_def digit_value_def)

lemma parseInt_date: "parseInt ''Wed, 21 Oct'' = None"
  by (simp add: parseInt_def is_whitespace_def digit_value_def)

lemma try_block_401:
  "status r = 401 \<Longrightarrow> try_block w (Responded r) = Inl UnauthorizedException"
  by (simp add: try_block_def)

lemma try_block_429:
  "status r = 429 \<Longrightarrow> try_block w (Responded r) = Inl (RateLimitException (retry_after_or_60 r))"
  by (simp add: try_block_def retry_after_or_60_def parseInt_60 split: option.splits)

lemma request_raises_after:
  assumes "int N < retryAttempts hc"
    and "\<forall>k<N. transient_failure (fetch hc w (fetches w + k))"
    and "try_block w (fetch hc w (fetches w + N)) = Inl e"
    and "is_UnauthorizedException e \<or> is_RateLimitException e"
  shows "request hc w
       = (Inl e, w\<lparr>fetches := fetches w + N + 1,
                     delays := delays w @ backoff (retryDelay hc) N\<rparr>)"
proof -
  let ?le = "if N = 0 then None else Some (failure_of (fetch hc w (fetches w + N - 1)))"
  let ?w = "w\<lparr>fetches := fetches w + N,
              delays := delays w @ map (\<lambda>k. retryDelay hc * (1 + int k)) [0..<N]\<rparr>"
  from assms(1) have bound: "1 + int N \<le> retryAttempts hc" by simp
  have "request hc w = request_loop hc (1 + int N) ?le ?w"
    unfolding request_def by (rule request_loop_transient [OF assms(2) bound])
  also have "\<dots> = (Inl e, ?w\<lparr>fetches := Suc (fetches ?w)\<rparr>)"
    by (rule request_loop_raises [OF bound _ assms(4)]) (simp add: assms(3))
  finally show ?thesis by (simp add: backoff_def)
qed

lemma request_times_out_after:
  assumes "int N < retryAttempts hc"
    and "\<forall>k<N. transient_failure (fetch hc w (fetches w + k))"
    and "0 < timeout hc" and "timeout hc < latency w (fetches w + N)"
  shows "request hc w
       = (Inl (TimeoutException (timeout hc)),
          w\<lparr>fetches := fetches w + N + 1,
            delays := delays w @ backoff (retryDelay hc) N\<rparr>)"
proof -
  let ?le = "if N = 0 then None else Some (failure_of (fetch hc w (fetches w + N - 1)))"
  let ?w = "w\<lparr>fetches := fetches w + N,
              delays := delays w @ map (\<lambda>k. retryDelay hc * (1 + int k)) [0..<N]\<rparr>"
  from assms(1) have bound: "1 + int N \<le> retryAttempts hc" by simp
  have aborted: "fetch hc ?w (fetches ?w) = Rejected ''AbortError'' ''This operation was aborted''"
    using fetch_aborted [OF assms(3,4)] by simp
  have "request hc w = request_loop hc (1 + int N) ?le ?w"
    unfolding request_def by (rule request_loop_transient [OF assms(2) bound])
  also have "\<dots> = (Inl (TimeoutException (timeout hc)), ?w\<lparr>fetches := Suc (fetches ?w)\<rparr>)"
    by (rule request_loop_times_out [OF bound aborted])
  finally show ?thesis by (simp add: backoff_def)
qed



lemma unauthorized_network_facts:
  "fetches unauthorized_network = 0" "delays unauthorized_network = []"
  "latency unauthorized_network k = 50"
  "script unauthorized_network 0 = Responded (response_with 401 [])"
  "script unauthorized_network (Suc 0) = Responded (response_with 200 [])"
  by (simp_all add: unauthorized_network_def network_of_def)

lemma rate_limited_network_facts:
  "fetches rate_limited_network = 0" "delays rate_limited_network = []"
  "latency rate_limited_network k = 50"
  "script rate_limited_network 0 = Responded (response_with 500 [])"
  "script rate_limited_network (Suc 0)
     = Responded (response_with 429 [(''retry-after'', ''120'')])"
  by (simp_all add: rate_limited_network_def network_of_def)

lemma slow_network_facts:
  "fetches slow_network = 0" "delays slow_network = []"
  "latency slow_network 0 = 40000" "latency slow_network (Suc 0) = 50"
  "script slow_network 0 = Responded (response_with 200 [])"
  "script slow_network (Suc 0) = Responded (response_with 200 [])"
  by (simp_all add: slow_network_def network_of_def)

lemma backoff_small: "backoff d 0 = []" "backoff d (Suc 0) = [d]"
  by (simp_all add: backoff_def)

subsection \<open>No retry on 401 and 429\<close>

text \<open>
  Claim C3. Whatever the retry budget is, a response with status 401 makes \<open>request\<close>
  raise \<open>UnauthorizedException\<close>, and a response with status 429 makes it raise
  \<open>RateLimitException\<close> with the value of the \<open>retry-after\<close> header (60 when the header
  is absent or empty), at once: the attempt that received the response is the last call
  of \<open>fetch\<close> and no delay follows it. With \<open>N = 0\<close> the response arrives at the first
  attempt, and \<open>request\<close> raises after exactly one attempt and no delay; with \<open>N > 0\<close> it
  arrives after \<open>N\<close> transient failures, and only their delays have been waited. The
  response is one that arrives in time, before the timer of the timeout fires.
\<close>

theorem no_retry_law:
  assumes "int N < retryAttempts hc"
    and "\<forall>k<N. fails_transiently hc w (fetches w + k)"
    and "in_time hc w (fetches w + N)"
    and "script w (fetches w + N) = Responded r"
  shows "(status r = 401 \<longrightarrow>
            request hc w
            = (Inl UnauthorizedException,
               w\<lparr>fetches := fetches w + N + 1,
                 delays := delays w @ backoff (retryDelay hc) N\<rparr>))
       \<and> (status r = 429 \<longrightarrow>
            request hc w
            = (Inl (RateLimitException (retry_after_or_60 r)),
               w\<lparr>fetches := fetches w + N + 1,
                 delays := delays w @ backoff (retryDelay hc) N\<rparr>))"
proof (intro conjI impI)
  from assms(2) have before: "\<forall>k<N. transient_failure (fetch hc w (fetches w + k))"
    by (simp add: fetch_fails_transiently)
  from assms(3,4) have got: "fetch hc w (fetches w + N) = Responded r"
    by (simp add: fetch_in_time)
  {
    assume s: "status r = 401"
    show "request hc w
        = (Inl UnauthorizedException,
           w\<lparr>fetches := fetches w + N + 1, delays := delays w @ backoff (retryDelay hc) N\<rparr>)"
      by (rule request_raises_after [OF assms(1) before]) (simp_all add: got try_block_401 [OF s])
  }
  {
    assume s: "status r = 429"
    show "request hc w
        = (Inl (RateLimitException (retry_after_or_60 r)),
           w\<lparr>fetches := fetches w + N + 1, delays := delays w @ backoff (retryDelay hc) N\<rparr>)"
      by (rule request_raises_after [OF assms(1) before]) (simp_all add: got try_block_429 [OF s])
  }
qed

theorem no_retry_law_witness:
  "request default_client unauthorized_network
     = (Inl UnauthorizedException, unauthorized_network\<lparr>fetches := 1, delays := []\<rparr>)
   \<and> request default_client rate_limited_network
     = (Inl (RateLimitException (Some 120)),
        rate_limited_network\<lparr>fetches := 2, delays := [1000]\<rparr>)
   \<and> retry_after_or_60 (response_with 429 []) = Some 60"
proof -
  have a: "int 0 < retryAttempts default_client" "int 1 < retryAttempts default_client"
    by (simp_all add: default_client_facts)
  have b: "\<forall>k<0. fails_transiently default_client unauthorized_network
                    (fetches unauthorized_network + k)"
    by simp
  have t: "in_time default_client unauthorized_network (fetches unauthorized_network + 0)"
    "in_time default_client rate_limited_network (fetches rate_limited_network + 1)"
    by (simp_all add: in_time_default unauthorized_network_facts rate_limited_network_facts)
  have c: "script unauthorized_network (fetches unauthorized_network + 0)
      = Responded (response_with 401 [])"
    by (simp add: unauthorized_network_facts)
  have d: "\<forall>k<1. fails_transiently default_client rate_limited_network
                    (fetches rate_limited_network + k)"
    by (simp add: fails_transiently_def in_time_default rate_limited_network_facts
        transient_examples)
  have e: "script rate_limited_network (fetches rate_limited_network + 1)
      = Responded (response_with 429 [(''retry-after'', ''120'')])"
    by (simp add: rate_limited_network_facts)
  have s: "status (response_with 401 []) = 401"
    "status (response_with 429 [(''retry-after'', ''120'')]) = 429"
    by (simp_all add: response_with_def)
  have v: "retry_after_or_60 (response_with 429 [(''retry-after'', ''120'')]) = Some 120"
    "retry_after_or_60 (response_with 429 []) = Some 60"
    by (simp_all add: retry_after_or_60_def response_with_def parseInt_120)
  have one: "request default_client unauthorized_network
      = (Inl UnauthorizedException, unauthorized_network\<lparr>fetches := 1, delays := []\<rparr>)"
    using no_retry_law [OF a(1) b t(1) c] s(1)
    by (simp add: unauthorized_network_facts backoff_small)
  have two: "request default_client rate_limited_network
      = (Inl (RateLimitException (Some 120)),
         rate_limited_network\<lparr>fetches := 2, delays := [1000]\<rparr>)"
    using no_retry_law [OF a(2) d t(2) e] s(2)
    by (simp add: rate_limited_network_facts backoff_small v default_client_facts)
  from one two v(2) show ?thesis by (intro conjI)
qed

subsection \<open>Timeouts\<close>

text \<open>
  Claim C4, as the code has it. With a positive timeout, an attempt whose \<open>fetch\<close> takes
  longer than the timeout to answer is aborted, and \<open>request\<close> raises \<open>TimeoutException\<close>
  with the configured timeout at once, as the result of the whole call: no further attempt
  is made and no delay follows, whatever remains of the retry budget and whatever the
  network would have answered, then or at a later attempt. With \<open>N = 0\<close> this is the
  first attempt; with \<open>N > 0\<close> it comes after \<open>N\<close> transient failures.
\<close>

theorem timeout_law:
  assumes "int N < retryAttempts hc"
    and "\<forall>k<N. fails_transiently hc w (fetches w + k)"
    and "0 < timeout hc"
    and "timeout hc < latency w (fetches w + N)"
  shows "request hc w
       = (Inl (TimeoutException (timeout hc)),
          w\<lparr>fetches := fetches w + N + 1,
            delays := delays w @ backoff (retryDelay hc) N\<rparr>)"
proof -
  from assms(2) have "\<forall>k<N. transient_failure (fetch hc w (fetches w + k))"
    by (simp add: fetch_fails_transiently)
  with assms(1) show ?thesis using assms(3,4) by (rule request_times_out_after)
qed

theorem timeout_law_witness:
  "request default_client slow_network
     = (Inl (TimeoutException 30000), slow_network\<lparr>fetches := 1, delays := []\<rparr>)"
proof -
  have a: "int 0 < retryAttempts default_client" by (simp add: default_client_facts)
  have b: "\<forall>k<0. fails_transiently default_client slow_network (fetches slow_network + k)"
    by simp
  have c: "0 < timeout default_client" by (simp add: default_client_facts)
  have d: "timeout default_client < latency slow_network (fetches slow_network + 0)"
    by (simp add: slow_network_facts default_client_facts)
  show ?thesis
    using timeout_law [OF a b c d]
    by (simp add: slow_network_facts backoff_small default_client_facts)
qed

text \<open>
  The claim as stated fails: with three attempts configured, a timeout of 30 seconds, a
  first attempt whose answer takes 40 seconds and a second one that would succeed within
  50 milliseconds, \<open>request\<close> calls \<open>fetch\<close> once and the result of the whole call is
  the \<open>TimeoutException\<close>.
\<close>

theorem timeout_surfaces_counterexample:
  "timeout default_client = 30000
   \<and> retryAttempts default_client = 3
   \<and> latency slow_network 0 = 40000
   \<and> latency slow_network 1 = 50
   \<and> script slow_network 1 = Responded (response_with 200 [])
   \<and> fst (request default_client slow_network) = Inl (TimeoutException 30000)
   \<and> fetches (snd (request default_client slow_network)) = 1"
proof -
  have a: "int 0 < retryAttempts default_client" by (simp add: default_client_facts)
  have b: "\<forall>k<0. transient_failure (fetch default_client slow_network (fetches slow_network + k))"
    by simp
  have c: "0 < timeout default_client" by (simp add: default_client_facts)
  have d: "timeout default_client < latency slow_network (fetches slow_network + 0)"
    by (simp add: slow_network_facts default_client_facts)
  have "request default_client slow_network
      = (Inl (TimeoutException 30000), slow_network\<lparr>fetches := 1, delays := []\<rparr>)"
    using request_times_out_after [OF a b c d]
    by (simp add: slow_network_facts backoff_small default_client_facts)
  then show ?thesis
    by (simp add: slow_network_facts default_client_facts)
qed

subsection \<open>The retry law\<close>



section \<open>Properties of the repository\<close>

lemma fetch_all_throws:
  "answers_list w (length (requests w)) = Inl e \<Longrightarrow>
     fetch_all repo w = (Inl e, repo, w\<lparr>requests := requests w @ [GET_clients]\<rparr>)"
  by (simp add: fetch_all_def http_get_list_def GET_clients_def)

lemma fetch_all_usable:
  "answers_list w (length (requests w)) = Inr r \<Longrightarrow> success r \<Longrightarrow> data r = Some d \<Longrightarrow>
     fetch_all repo w
       = (Inr (fromRawData d),
          repo\<lparr>cache := Some (fromRawData d),
               cacheTimestamp := Some (clock w (clock_reads w))\<rparr>,
          w\<lparr>requests := requests w @ [GET_clients], clock_reads := Suc (clock_reads w)\<rparr>)"
  by (simp add: fetch_all_def http_get_list_def GET_clients_def Date_now_def Let_def)

lemma fetch_all_unusable:
  "answers_list w (length (requests w)) = Inr r \<Longrightarrow> \<not> (success r \<and> data r \<noteq> None) \<Longrightarrow>
     fetch_all repo w
       = (Inr (new_ClientCollection []), repo, w\<lparr>requests := requests w @ [GET_clients]\<rparr>)"
  by (auto simp: fetch_all_def http_get_list_def GET_clients_def split: bool.splits option.splits)

lemma isCacheValid_requests: "requests (snd (isCacheValid repo w)) = requests w"
  by (simp add: isCacheValid_def Date_now_def split: option.splits)

lemma isCacheValid_answers:
  "answers_list (snd (isCacheValid repo w)) = answers_list w"
  "answers_item (snd (isCacheValid repo w)) = answers_item w"
  by (simp_all add: isCacheValid_def Date_now_def split: option.splits)

lemma isCacheValid_cache: "fst (isCacheValid repo w) \<Longrightarrow> \<exists>c. cache repo = Some c"
  by (auto simp: isCacheValid_def split: option.splits)

lemma findAll_cached:
  assumes "\<not> forceRefresh" and "fst (isCacheValid repo w)" and "cache repo = Some c"
  shows "findAll forceRefresh repo w = (Inr c, repo, snd (isCacheValid repo w))"
  using assms by (cases "isCacheValid repo w") (simp add: findAll_def)

lemma findAll_fetches:
  assumes "forceRefresh \<or> \<not> fst (isCacheValid repo w)"
  shows "findAll forceRefresh repo w
       = fetch_all repo (if forceRefresh then w else snd (isCacheValid repo w))"
  using assms by (cases "isCacheValid repo w") (auto simp: findAll_def)

lemma new_ClientCollection_empty: "new_ClientCollection [] = ClientCollection []"
  by (simp add: new_ClientCollection_def new_Map_def)

lemma get_empty: "get (new_ClientCollection []) i = None"
  by (simp add: new_ClientCollection_empty get_def)

lemma findAll_unusable:
  assumes "answers_list w (length (requests w)) = Inr r"
    and "\<not> (success r \<and> data r \<noteq> None)"
    and "requests (snd (snd (findAll forceRefresh repo w))) \<noteq> requests w"
  shows "findAll forceRefresh repo w
       = (Inr (new_ClientCollection []), repo,
          (if forceRefresh then w else snd (isCacheValid repo w))
            \<lparr>requests := requests w @ [GET_clients]\<rparr>)"
proof -
  let ?w = "if forceRefresh then w else snd (isCacheValid repo w)"
  have fetching: "forceRefresh \<or> \<not> fst (isCacheValid repo w)"
  proof (rule ccontr)
    assume "\<not> (forceRefresh \<or> \<not> fst (isCacheValid repo w))"
    then have n: "\<not> forceRefresh" and v: "fst (isCacheValid repo w)" by simp_all
    from v obtain c where "cache repo = Some c" using isCacheValid_cache by blast
    from findAll_cached [OF n v this] assms(3) show False
      by (simp add: isCacheValid_requests)
  qed
  have same: "requests ?w = requests w" "answers_list ?w = answers_list w"
    by (simp_all add: isCacheValid_requests isCacheValid_answers)
  from assms(1) have "answers_list ?w (length (requests ?w)) = Inr r"
    by (simp only: same)
  from fetch_all_unusable [OF this assms(2), of repo]
  show ?thesis unfolding findAll_fetches [OF fetching] by (simp only: same)
qed

lemma findById_requests_validation:
  "validateId i = Some e \<Longrightarrow> findById i repo w = (Inl e, repo, w)"
  by (simp add: findById_def)

lemma findById_after_findAll:
  "validateId i = None \<Longrightarrow>
     findById i repo w =
       (case fst (findAll False repo w) of
          Inl e \<Rightarrow> (Inl e, snd (findAll False repo w))
        | Inr col \<Rightarrow>
            (case get col i of
               None \<Rightarrow> (Inl (ClientNotFoundException i), snd (findAll False repo w))
             | Some client \<Rightarrow> (Inr client, snd (findAll False repo w))))"
  by (simp add: findById_def split: prod.splits sum.splits option.splits)

lemma findById_state:
  "validateId i = None \<Longrightarrow> snd (findById i repo w) = snd (findAll False repo w)"
  by (simp add: findById_after_findAll split: sum.splits option.splits)

lemma service_answering_facts:
  "answers_list (service_answering r) k = Inr r"
  "answers_item (service_answering r) k = Inr \<lparr> success = True, data = None, statusCode = 200 \<rparr>"
  "requests (service_answering r) = []"
  "clock (service_answering r) k = 0"
  "clock_reads (service_answering r) = 0"
  "toLowerCase (service_answering r) = example_toLowerCase"
  by (simp_all add: service_answering_def)

lemma isCacheValid_empty_repository:
  "isCacheValid empty_repository w = (False, w)"
  by (simp add: isCacheValid_def empty_repository_def)

lemma validateId_abc: "validateId ''abc'' = None"
  by (simp add: validateId_def trim_def is_whitespace_def)

lemma find_append_cases:
  "find P (as @ bs) = (case find P as of None \<Rightarrow> find P bs | Some x \<Rightarrow> Some x)"
  by (induction as) simp_all

lemma find_rev_Some:
  "find P (rev xs) = Some c \<longleftrightarrow>
     (\<exists>pre post. xs = pre @ c # post \<and> P c \<and> list_all (\<lambda>x. \<not> P x) post)"
proof
  show "find P (rev xs) = Some c \<Longrightarrow>
      \<exists>pre post. xs = pre @ c # post \<and> P c \<and> list_all (\<lambda>x. \<not> P x) post"
  proof (induction xs rule: rev_induct)
    case Nil
    then show ?case by simp
  next
    case (snoc y ys)
    show ?case
    proof (cases "P y")
      case True
      with snoc.prems have "c = y" by simp
      with True have "ys @ [y] = ys @ c # [] \<and> P c \<and> list_all (\<lambda>x. \<not> P x) []" by simp
      then show ?thesis by blast
    next
      case False
      with snoc.prems have "find P (rev ys) = Some c" by simp
      then obtain pre post where "ys = pre @ c # post" and "P c"
          and "list_all (\<lambda>x. \<not> P x) post"
        using snoc.IH by blast
      with False have "ys @ [y] = pre @ c # (post @ [y]) \<and> P c
          \<and> list_all (\<lambda>x. \<not> P x) (post @ [y])"
        by simp
      then show ?thesis by blast
    qed
  qed
next
  assume "\<exists>pre post. xs = pre @ c # post \<and> P c \<and> list_all (\<lambda>x. \<not> P x) post"
  then obtain pre post where xs: "xs = pre @ c # post" and c: "P c"
      and post: "list_all (\<lambda>x. \<not> P x) post"
    by blast
  from post have "find P (rev post) = None"
    by (auto simp: find_None_iff list_all_iff)
  with c show "find P (rev xs) = Some c"
    by (simp add: xs find_append_cases)
qed

lemma find_rev_None: "find P (rev xs) = None \<longleftrightarrow> list_all (\<lambda>x. \<not> P x) xs"
  by (auto simp: find_None_iff list_all_iff)

lemma fetch_all_requests:
  "requests (snd (snd (fetch_all repo w))) = requests w @ [GET_clients]"
  by (simp add: fetch_all_def http_get_list_def GET_clients_def Date_now_def Let_def
      split: sum.splits bool.splits option.splits prod.splits)

lemma fetch_all_result:
  "fst (fetch_all repo w) =
     (case answers_list w (length (requests w)) of
        Inl e \<Rightarrow> Inl e
      | Inr r \<Rightarrow> Inr (snapshot_of r))"
  by (simp add: fetch_all_def http_get_list_def snapshot_of_def Date_now_def Let_def
      split: sum.splits bool.splits option.splits prod.splits)

lemma create_after_post:
  assumes "validateClientName n = None"
    and "answers_item w (length (requests w)) = Inr posted" and "success posted"
  shows "create n repo w =
     (let fetched = fetch_all (invalidateCache repo)
                      (w\<lparr>requests := requests w
                           @ [(''POST'', ''/api/wireguard/client'', Some [(''name'', n)])]\<rparr>)
      in case fst fetched of
           Inl e \<Rightarrow> (Inl e, snd fetched)
         | Inr col \<Rightarrow>
             (case find (\<lambda>c. toLowerCase w (name c) = toLowerCase w (js n)) (rev (toArray col)) of
                None \<Rightarrow> (Inl (JsError ''Error''
                              (''Failed to find created client with name: '' @ n)),
                         snd fetched)
              | Some client \<Rightarrow> (Inr client, snd fetched)))"
  using assms
  by (simp add: create_def http_send_def findAll_def Let_def
      split: prod.splits sum.splits option.splits)

lemma validateClientName_examples:
  "validateClientName ''DEV-1'' = None" "validateClientName ''dev-1'' = None"
  "validateClientName ''other'' = None"
  by (simp_all add: validateClientName_def trim_def is_whitespace_def NAME_REGEX_test_def)

lemma toArray_two_devices:
  "toArray (snapshot_of two_devices_answer)
     = [new_Client (example_data ''id1'' ''dev-1''), new_Client (example_data ''id2'' ''Dev-1'')]"
  unfolding snapshot_of_def two_devices_answer_def fromRawData_def
  by (simp add: toArray_new_distinct new_Client_def example_data_def)

lemma same_name_examples:
  "same_name example_toLowerCase ''DEV-1'' (new_Client (example_data i ''dev-1''))"
  "same_name example_toLowerCase ''DEV-1'' (new_Client (example_data i ''Dev-1''))"
  "same_name example_toLowerCase ''dev-1'' (new_Client (example_data i ''dev-1''))"
  "same_name example_toLowerCase ''dev-1'' (new_Client (example_data i ''Dev-1''))"
  "\<not> same_name example_toLowerCase ''other'' (new_Client (example_data i ''dev-1''))"
  "\<not> same_name example_toLowerCase ''other'' (new_Client (example_data i ''Dev-1''))"
  by (simp_all add: same_name_def new_Client_def example_data_def example_toLowerCase_def lowering_defs)

lemma invalidateCache_idem: "invalidateCache (invalidateCache repo) = invalidateCache repo"
  by (simp add: invalidateCache_def)

lemma isCacheValid_invalidated: "isCacheValid (invalidateCache repo) w = (False, w)"
  by (simp add: isCacheValid_def invalidateCache_def)

lemma findAll_invalidated:
  "findAll forceRefresh (invalidateCache repo) w = fetch_all (invalidateCache repo) w"
  by (simp add: findAll_def isCacheValid_invalidated)

lemma fetch_all_state:
  "fst (snd (fetch_all repo w)) =
     (case answers_list w (length (requests w)) of
        Inl e \<Rightarrow> repo
      | Inr r \<Rightarrow>
          (case (success r, data r) of
             (True, Some d) \<Rightarrow>
               repo\<lparr>cache := Some (fromRawData d),
                    cacheTimestamp := Some (clock w (clock_reads w))\<rparr>
           | _ \<Rightarrow> repo))"
  by (simp add: fetch_all_def http_get_list_def Date_now_def Let_def
      split: sum.splits bool.splits option.splits prod.splits)

lemma fetch_all_fresh:
  assumes "cache repo = None" and "cacheTimestamp repo = None"
  shows "cache (fst (snd (fetch_all repo (w\<lparr>requests := requests w @ [q]\<rparr>))))
           = refetched w (length (requests w))"
    and "(cacheTimestamp (fst (snd (fetch_all repo (w\<lparr>requests := requests w @ [q]\<rparr>)))) = None)
           = (refetched w (length (requests w)) = None)"
  using assms
  by (simp_all add: fetch_all_state refetched_def split: sum.splits bool.splits option.splits)

lemma create_returns:
  assumes "validateClientName n = None"
    and "answers_item w (length (requests w)) = Inr resp"
  shows "create n repo w =
     (if \<not> success resp
      then (Inl (JsError ''Error'' ''Failed to create client''), invalidateCache repo,
            w\<lparr>requests := requests w @ [request_of (Create n)]\<rparr>)
      else (case fst (fetch_all (invalidateCache repo)
                        (w\<lparr>requests := requests w @ [request_of (Create n)]\<rparr>)) of
              Inl e \<Rightarrow> (Inl e, snd (fetch_all (invalidateCache repo)
                                    (w\<lparr>requests := requests w @ [request_of (Create n)]\<rparr>)))
            | Inr col \<Rightarrow>
                (case find (\<lambda>c. toLowerCase w (name c) = toLowerCase w (js n)) (rev (toArray col)) of
                   None \<Rightarrow> (Inl (JsError ''Error''
                                 (''Failed to find created client with name: '' @ n)),
                            snd (fetch_all (invalidateCache repo)
                                   (w\<lparr>requests := requests w @ [request_of (Create n)]\<rparr>)))
                 | Some client \<Rightarrow>
                     (Inr client,
                      snd (fetch_all (invalidateCache repo)
                             (w\<lparr>requests := requests w @ [request_of (Create n)]\<rparr>))))))"
  using assms
  by (simp add: create_def http_send_def findAll_def Let_def
      split: prod.splits sum.splits option.splits)

lemma delete_returns:
  assumes "validateId i = None"
    and "answers_item w (length (requests w)) = Inr resp"
  shows "delete i repo w
       = (Inr (), invalidateCache repo, w\<lparr>requests := requests w @ [request_of (Delete i)]\<rparr>)"
  using assms by (simp add: delete_def http_send_def)

lemma findById_invalidated:
  assumes "validateId i = None"
  shows "findById i (invalidateCache repo) w =
     (case fst (fetch_all (invalidateCache repo) w) of
        Inl e \<Rightarrow> (Inl e, snd (fetch_all (invalidateCache repo) w))
      | Inr col \<Rightarrow>
          (case get col i of
             None \<Rightarrow> (Inl (ClientNotFoundException i), snd (fetch_all (invalidateCache repo) w))
           | Some client \<Rightarrow> (Inr client, snd (fetch_all (invalidateCache repo) w))))"
  by (simp only: findById_after_findAll [OF assms] findAll_invalidated)

lemma send_update_returns:
  assumes "validateId i = None"
    and "answers_item w (length (requests w)) = Inr resp"
  shows "send_update i method path body repo w =
     (case (success resp, data resp) of
        (True, Some d) \<Rightarrow>
          (Inr (new_Client d), invalidateCache repo,
           w\<lparr>requests := requests w @ [(method, path, body)]\<rparr>)
      | _ \<Rightarrow> findById i (invalidateCache repo)
               (w\<lparr>requests := requests w @ [(method, path, body)]\<rparr>))"
  using assms(2) by (simp add: send_update_def http_send_def Let_def)

lemma snd_returning: "snd (returning x) = snd x"
  by (simp add: returning_def split: sum.splits)

text \<open>
  After the call: the state is the one that the refetch left when the operation fetches
  the list itself, and the invalidated one otherwise.
\<close>

lemma perform_state:
  assumes "validation m = None"
    and "answers_item w (length (requests w)) = Inr resp"
  shows "snd (perform m repo w)
       = (if refetches m resp
          then snd (fetch_all (invalidateCache repo)
                      (w\<lparr>requests := requests w @ [request_of m]\<rparr>))
          else (invalidateCache repo, w\<lparr>requests := requests w @ [request_of m]\<rparr>))"
proof (cases m)
  case (Create n)
  with assms(1) have v: "validateClientName n = None" by simp
  show ?thesis
    by (simp add: Create snd_returning create_returns [OF v assms(2)]
        split: sum.splits option.splits)
next
  case (Delete i)
  with assms(1) have v: "validateId i = None" by simp
  show ?thesis by (simp add: Delete delete_returns [OF v assms(2)])
next
  case (UpdateName i n)
  with assms(1) have v: "validateId i = None" and v': "validateClientName n = None"
    by (simp_all split: option.splits)
  show ?thesis
    by (auto simp: UpdateName snd_returning updateName_def v v'
        send_update_returns [OF v assms(2)] findById_invalidated [OF v]
        split: bool.splits sum.splits option.splits)
next
  case (UpdateAddress i a)
  with assms(1) have v: "validateId i = None" and v': "validateIPAddress a = None"
    by (simp_all split: option.splits)
  show ?thesis
    by (auto simp: UpdateAddress snd_returning updateAddress_def v v'
        send_update_returns [OF v assms(2)] findById_invalidated [OF v]
        split: bool.splits sum.splits option.splits)
next
  case (Enable i)
  with assms(1) have v: "validateId i = None" by simp
  show ?thesis
    by (auto simp: Enable snd_returning enable_def v
        send_update_returns [OF v assms(2)] findById_invalidated [OF v]
        split: bool.splits sum.splits option.splits)
next
  case (Disable i)
  with assms(1) have v: "validateId i = None" by simp
  show ?thesis
    by (auto simp: Disable snd_returning disable_def v
        send_update_returns [OF v assms(2)] findById_invalidated [OF v]
        split: bool.splits sum.splits option.splits)
qed

lemma perform_drops_cache:
  assumes "validation m = None"
    and "answers_item w (length (requests w)) = Inr resp"
  shows "perform m repo w = perform m (invalidateCache repo) w"
proof (cases m)
  case (Create n)
  with assms(1) have v: "validateClientName n = None" by simp
  show ?thesis
    by (simp only: Create perform.simps create_returns [OF v assms(2)] invalidateCache_idem)
next
  case (Delete i)
  with assms(1) have v: "validateId i = None" by simp
  show ?thesis
    by (simp only: Delete perform.simps delete_returns [OF v assms(2)] invalidateCache_idem)
next
  case (UpdateName i n)
  with assms(1) have v: "validateId i = None" and v': "validateClientName n = None"
    by (simp_all split: option.splits)
  show ?thesis
    by (simp add: UpdateName updateName_def v v' send_update_returns [OF v assms(2)]
        invalidateCache_idem split: bool.splits option.splits)
next
  case (UpdateAddress i a)
  with assms(1) have v: "validateId i = None" and v': "validateIPAddress a = None"
    by (simp_all split: option.splits)
  show ?thesis
    by (simp add: UpdateAddress updateAddress_def v v' send_update_returns [OF v assms(2)]
        invalidateCache_idem split: bool.splits option.splits)
next
  case (Enable i)
  with assms(1) have v: "validateId i = None" by simp
  show ?thesis
    by (simp add: Enable enable_def v send_update_returns [OF v assms(2)]
        invalidateCache_idem split: bool.splits option.splits)
next
  case (Disable i)
  with assms(1) have v: "validateId i = None" by simp
  show ?thesis
    by (simp add: Disable disable_def v send_update_returns [OF v assms(2)]
        invalidateCache_idem split: bool.splits option.splits)
qed

lemma perform_requests:
  assumes "validation m = None"
    and "answers_item w (length (requests w)) = Inr resp"
  shows "requests (snd (snd (perform m repo w)))
       = requests w @ request_of m # (if refetches m resp then [GET_clients] else [])"
  by (simp add: perform_state [OF assms] fetch_all_requests del: request_of.simps)

lemma perform_cache:
  assumes "validation m = None"
    and "answers_item w (length (requests w)) = Inr resp"
  shows "cache (fst (snd (perform m repo w)))
           = (if refetches m resp then refetched w (length (requests w)) else None)"
    and "(cacheTimestamp (fst (snd (perform m repo w))) = None)
           = (cache (fst (snd (perform m repo w))) = None)"
proof -
  have inv: "cache (invalidateCache repo) = None" "cacheTimestamp (invalidateCache repo) = None"
    by (simp_all add: invalidateCache_def)
  show "cache (fst (snd (perform m repo w)))
      = (if refetches m resp then refetched w (length (requests w)) else None)"
    by (simp add: perform_state [OF assms] fetch_all_fresh [OF inv] inv del: request_of.simps)
  show "(cacheTimestamp (fst (snd (perform m repo w))) = None)
      = (cache (fst (snd (perform m repo w))) = None)"
    by (simp add: perform_state [OF assms] fetch_all_fresh [OF inv] inv del: request_of.simps)
qed

lemma findAll_refetch_or_cache:
  "requests (snd (snd (findAll f repo w))) = requests w @ [GET_clients]
   \<or> (\<exists>c. cache repo = Some c \<and> fst (findAll f repo w) = Inr c)"
proof (cases "f \<or> \<not> fst (isCacheValid repo w)")
  case True
  then show ?thesis
    by (simp only: findAll_fetches [OF True] fetch_all_requests)
       (simp add: isCacheValid_requests)
next
  case False
  then have n: "\<not> f" and v: "fst (isCacheValid repo w)" by simp_all
  from v obtain c where c: "cache repo = Some c" using isCacheValid_cache by blast
  from findAll_cached [OF n v c] c show ?thesis by simp
qed

lemma validateId_id1: "validateId ''id1'' = None"
  by (simp add: validateId_def trim_def is_whitespace_def)

subsection \<open>Mutations and the cache\<close>

text \<open>
  Claim C1, as the code has it. For each of the six mutating operations whose remote call
  returns an answer: the cache is invalidated right after the call, so the operation runs
  from there on as on a repository whose cache was already dropped, and the snapshot
  cached before has no part in its result or in the state it leaves. The operation then
  fetches the list itself exactly when \<open>refetches\<close> says so (\<open>create\<close> when the answer
  reports success; \<open>updateName\<close>, \<open>updateAddress\<close>, \<open>enable\<close> and \<open>disable\<close> unless the
  answer reports success and carries the record; \<open>delete\<close> never), and when it ends the
  cache holds the snapshot of that fetch, if there was one and it was usable, and is
  empty otherwise. Hence the \<open>findAll\<close> that follows fetches the list again, or, after an
  operation that has fetched the list itself, returns the snapshot of that fetch, made
  after the remote call; it never returns the snapshot cached before.
\<close>

theorem mutation_invalidates_cache:
  assumes "validation m = None"
    and "answers_item w (length (requests w)) = Inr resp"
  shows "perform m repo w = perform m (invalidateCache repo) w
       \<and> requests (snd (snd (perform m repo w)))
           = requests w @ request_of m # (if refetches m resp then [GET_clients] else [])
       \<and> cache (fst (snd (perform m repo w)))
           = (if refetches m resp then refetched w (length (requests w)) else None)
       \<and> (cacheTimestamp (fst (snd (perform m repo w))) = None)
           = (cache (fst (snd (perform m repo w))) = None)
       \<and> (requests (snd (snd (findAll False (fst (snd (perform m repo w)))
                                  (snd (snd (perform m repo w))))))
            = requests (snd (snd (perform m repo w))) @ [GET_clients]
          \<or> refetches m resp
            \<and> (\<exists>col. refetched w (length (requests w)) = Some col
                   \<and> fst (findAll False (fst (snd (perform m repo w)))
                            (snd (snd (perform m repo w)))) = Inr col))"
proof -
  let ?repo = "fst (snd (perform m repo w))"
  let ?w = "snd (snd (perform m repo w))"
  note cached = perform_cache(1) [OF assms, of repo]
  have "requests (snd (snd (findAll False ?repo ?w))) = requests ?w @ [GET_clients]
      \<or> refetches m resp
        \<and> (\<exists>col. refetched w (length (requests w)) = Some col
               \<and> fst (findAll False ?repo ?w) = Inr col)"
    using findAll_refetch_or_cache [of False ?repo ?w]
  proof
    assume "requests (snd (snd (findAll False ?repo ?w))) = requests ?w @ [GET_clients]"
    then show ?thesis ..
  next
    assume "\<exists>c. cache ?repo = Some c \<and> fst (findAll False ?repo ?w) = Inr c"
    then obtain c where c: "cache ?repo = Some c" and r: "fst (findAll False ?repo ?w) = Inr c"
      by blast
    from c cached have "refetches m resp \<and> refetched w (length (requests w)) = Some c"
      by (simp split: if_splits)
    with r show ?thesis by blast
  qed
  with perform_drops_cache [OF assms, of repo] perform_requests [OF assms, of repo]
    cached perform_cache(2) [OF assms, of repo]
  show ?thesis by (intro conjI)
qed

text \<open>
  Two instances: \<open>enable\<close> with an answer that carries no record fetches the list and
  leaves it cached; \<open>delete\<close> fetches nothing and leaves the cache empty, so that the next
  \<open>findAll\<close> fetches the list.
\<close>

theorem mutation_invalidates_cache_witness:
  "requests (snd (snd (perform (Enable ''id1'') cached_repository
        (service_answering two_devices_answer))))
     = [request_of (Enable ''id1''), GET_clients]
   \<and> cache (fst (snd (perform (Enable ''id1'') cached_repository
        (service_answering two_devices_answer))))
     = Some (snapshot_of two_devices_answer)
   \<and> perform (Delete ''id1'') cached_repository (service_answering two_devices_answer)
     = perform (Delete ''id1'') (invalidateCache cached_repository)
         (service_answering two_devices_answer)
   \<and> cache (fst (snd (perform (Delete ''id1'') cached_repository
        (service_answering two_devices_answer)))) = None
   \<and> requests (snd (snd (findAll False
        (fst (snd (perform (Delete ''id1'') cached_repository
           (service_answering two_devices_answer))))
        (snd (snd (perform (Delete ''id1'') cached_repository
           (service_answering two_devices_answer)))))))
     = [request_of (Delete ''id1''), GET_clients]"
proof -
  let ?w = "service_answering two_devices_answer"
  let ?p = "perform (Delete ''id1'') cached_repository ?w"
  let ?resp = "\<lparr> success = True, data = None, statusCode = 200 \<rparr> :: IClientData IApiResponse"
  have v: "validation (Delete ''id1'') = None" "validation (Enable ''id1'') = None"
    by (simp_all add: validateId_id1)
  have a: "answers_item ?w (length (requests ?w)) = Inr ?resp"
    by (simp add: service_answering_facts)
  have r: "refetches (Enable ''id1'') ?resp" "\<not> refetches (Delete ''id1'') ?resp"
    by simp_all
  have f: "refetched ?w (length (requests ?w)) = Some (snapshot_of two_devices_answer)"
    by (simp add: refetched_def service_answering_facts snapshot_of_def two_devices_answer_def)
  note enabled = mutation_invalidates_cache [OF v(2) a, of cached_repository]
  note deleted = mutation_invalidates_cache [OF v(1) a, of cached_repository]
  have one: "requests (snd (snd (perform (Enable ''id1'') cached_repository ?w)))
      = [request_of (Enable ''id1''), GET_clients]"
    using enabled [THEN conjunct2, THEN conjunct1] r(1)
    by (simp add: service_answering_facts del: request_of.simps perform.simps)
  have two: "cache (fst (snd (perform (Enable ''id1'') cached_repository ?w)))
      = Some (snapshot_of two_devices_answer)"
    using enabled [THEN conjunct2, THEN conjunct2, THEN conjunct1] r(1) f
    by (simp del: request_of.simps perform.simps)
  from deleted have three: "?p = perform (Delete ''id1'') (invalidateCache cached_repository) ?w"
    by (rule conjunct1)
  have four: "cache (fst (snd ?p)) = None"
    using deleted [THEN conjunct2, THEN conjunct2, THEN conjunct1] r(2)
    by (simp del: request_of.simps perform.simps)
  have st: "snd ?p = (invalidateCache cached_repository,
                      ?w\<lparr>requests := [request_of (Delete ''id1'')]\<rparr>)"
    using delete_returns [OF validateId_id1 a, of cached_repository]
    by (simp add: service_answering_facts)
  have five: "requests (snd (snd (findAll False (fst (snd ?p)) (snd (snd ?p)))))
      = [request_of (Delete ''id1''), GET_clients]"
    unfolding st by (simp add: findAll_invalidated fetch_all_requests del: request_of.simps)
  from one two three four five show ?thesis by (intro conjI)
qed

text \<open>
  The claim as stated fails in its last part, that the next read is always a refetch:
  \<open>create\<close> refetches the list itself and caches it, so a \<open>findAll\<close> that follows
  within the time to live returns that snapshot and issues no request.
\<close>

theorem read_after_create_counterexample:
  "fst (create ''dev-1'' empty_repository (service_answering two_devices_answer))
     = Inr (new_Client (example_data ''id2'' ''Dev-1''))
   \<and> requests (snd (snd (create ''dev-1'' empty_repository
        (service_answering two_devices_answer))))
     = [request_of (Create ''dev-1''), GET_clients]
   \<and> fst (findAll False
        (fst (snd (create ''dev-1'' empty_repository (service_answering two_devices_answer))))
        (snd (snd (create ''dev-1'' empty_repository (service_answering two_devices_answer)))))
     = Inr (snapshot_of two_devices_answer)
   \<and> requests (snd (snd (findAll False
        (fst (snd (create ''dev-1'' empty_repository (service_answering two_devices_answer))))
        (snd (snd (create ''dev-1'' empty_repository (service_answering two_devices_answer)))))))
     = [request_of (Create ''dev-1''), GET_clients]"
proof -
  let ?w = "service_answering two_devices_answer"
  let ?w1 = "?w\<lparr>requests := requests ?w @ [request_of (Create ''dev-1'')]\<rparr>"
  let ?col = "fromRawData [example_data ''id1'' ''dev-1'', example_data ''id2'' ''Dev-1'']"
  let ?repo = "(invalidateCache empty_repository)
                 \<lparr>cache := Some ?col, cacheTimestamp := Some 0\<rparr>"
  let ?w2 = "?w\<lparr>requests := [request_of (Create ''dev-1''), GET_clients], clock_reads := 1\<rparr>"
  have a: "answers_item ?w (length (requests ?w))
      = Inr \<lparr> success = True, data = None, statusCode = 200 \<rparr>"
    by (simp add: service_answering_facts)
  have snap: "snapshot_of two_devices_answer = ?col"
    by (simp add: snapshot_of_def two_devices_answer_def)
  have listed: "answers_list ?w1 (length (requests ?w1)) = Inr two_devices_answer"
    by (simp add: service_answering_facts)
  have fetched: "fetch_all (invalidateCache empty_repository) ?w1 = (Inr ?col, ?repo, ?w2)"
    using fetch_all_usable [OF listed, of "[example_data ''id1'' ''dev-1'', example_data ''id2'' ''Dev-1'']"
        "invalidateCache empty_repository"]
    by (simp add: two_devices_answer_def service_answering_facts)
  have arr: "toArray ?col
      = [new_Client (example_data ''id1'' ''dev-1''), new_Client (example_data ''id2'' ''Dev-1'')]"
    using toArray_two_devices by (simp only: snap)
  have found: "find (\<lambda>c. toLowerCase ?w (name c) = toLowerCase ?w (js ''dev-1''))
        (rev (toArray ?col))
      = Some (new_Client (example_data ''id2'' ''Dev-1''))"
    unfolding arr
    using same_name_examples(4) [of "''id2''"]
    by (simp add: same_name_def service_answering_facts)
  have created: "create ''dev-1'' empty_repository ?w
      = (Inr (new_Client (example_data ''id2'' ''Dev-1'')), ?repo, ?w2)"
    by (simp add: create_returns [OF validateClientName_examples(2) a] fetched found
        del: request_of.simps js_simps)
  have valid: "isCacheValid ?repo ?w2 = (True, ?w2\<lparr>clock_reads := 2\<rparr>)"
    by (simp add: isCacheValid_def Date_now_def service_answering_facts
        invalidateCache_def empty_repository_def)
  have "read": "findAll False ?repo ?w2 = (Inr ?col, ?repo, ?w2\<lparr>clock_reads := 2\<rparr>)"
    unfolding findAll_def valid by simp
  show ?thesis
    unfolding created snap fst_conv snd_conv "read"
    by (simp del: request_of.simps)
qed

subsection \<open>create\<close>

text \<open>
  Claim C2. For every \<open>create\<close> whose \<open>POST\<close> reports success, the repository issues the
  \<open>GET\<close> of the client list next, whatever the cache holds. When that call throws, its
  error is the result. Otherwise \<open>create\<close> returns a record exactly when that record is
  the newest one of the refetched snapshot whose name equals the requested name up to the
  case of letters, that is, once both are lowered by the platform (it matches and no
  record after it does); and when no record of the snapshot has that name, \<open>create\<close>
  raises an error although the \<open>POST\<close> succeeded.
\<close>

theorem create_locates_newest:
  assumes "validateClientName n = None"
    and "answers_item w (length (requests w)) = Inr posted" and "success posted"
  shows "requests (snd (snd (create n repo w)))
           = requests w @ [(''POST'', ''/api/wireguard/client'', Some [(''name'', n)]), GET_clients]
       \<and> (\<forall>e. answers_list w (Suc (length (requests w))) = Inl e
              \<longrightarrow> fst (create n repo w) = Inl e)
       \<and> (\<forall>r c. answers_list w (Suc (length (requests w))) = Inr r
              \<longrightarrow> (fst (create n repo w) = Inr c
                    \<longleftrightarrow> is_newest_match (toLowerCase w) n (toArray (snapshot_of r)) c))
       \<and> (\<forall>r. answers_list w (Suc (length (requests w))) = Inr r
                \<and> list_all (\<lambda>x. \<not> same_name (toLowerCase w) n x) (toArray (snapshot_of r))
              \<longrightarrow> fst (create n repo w)
                    = Inl (JsError ''Error'' (''Failed to find created client with name: '' @ n)))"
proof -
  let ?w1 = "w\<lparr>requests := requests w
                 @ [(''POST'', ''/api/wireguard/client'', Some [(''name'', n)])]\<rparr>"
  let ?fetched = "fetch_all (invalidateCache repo) ?w1"
  let ?P = "\<lambda>c. toLowerCase w (name c) = toLowerCase w (js n)"
  note c = create_after_post [OF assms, of repo]
  have P: "?P = same_name (toLowerCase w) n" by (rule ext) (simp add: same_name_def)
  have log: "requests (snd (snd (create n repo w)))
      = requests w @ [(''POST'', ''/api/wireguard/client'', Some [(''name'', n)]), GET_clients]"
    using fetch_all_requests [of "invalidateCache repo" ?w1]
    by (simp add: c Let_def split: sum.splits option.splits)
  have res: "fst ?fetched =
      (case answers_list w (Suc (length (requests w))) of
         Inl e \<Rightarrow> Inl e | Inr r \<Rightarrow> Inr (snapshot_of r))"
    by (simp add: fetch_all_result)
  have thrown: "\<forall>e. answers_list w (Suc (length (requests w))) = Inl e
      \<longrightarrow> fst (create n repo w) = Inl e"
    by (simp add: c Let_def res)
  have found: "\<forall>r c. answers_list w (Suc (length (requests w))) = Inr r
      \<longrightarrow> (fst (create n repo w) = Inr c \<longleftrightarrow> is_newest_match (toLowerCase w) n (toArray (snapshot_of r)) c)"
  proof (intro allI impI)
    fix r c
    assume "answers_list w (Suc (length (requests w))) = Inr r"
    then have "fst (create n repo w) = Inr c
        \<longleftrightarrow> find ?P (rev (toArray (snapshot_of r))) = Some c"
      by (auto simp: c Let_def res split: option.splits)
    then show "fst (create n repo w) = Inr c \<longleftrightarrow> is_newest_match (toLowerCase w) n (toArray (snapshot_of r)) c"
      by (simp only: find_rev_Some is_newest_match_def P)
  qed
  have missing: "\<forall>r. answers_list w (Suc (length (requests w))) = Inr r
        \<and> list_all (\<lambda>x. \<not> same_name (toLowerCase w) n x) (toArray (snapshot_of r))
      \<longrightarrow> fst (create n repo w)
            = Inl (JsError ''Error'' (''Failed to find created client with name: '' @ n))"
  proof (intro allI impI, elim conjE)
    fix r
    assume a: "answers_list w (Suc (length (requests w))) = Inr r"
      and "list_all (\<lambda>x. \<not> same_name (toLowerCase w) n x) (toArray (snapshot_of r))"
    then have "find ?P (rev (toArray (snapshot_of r))) = None"
      by (simp only: find_rev_None P)
    with a show "fst (create n repo w)
        = Inl (JsError ''Error'' (''Failed to find created client with name: '' @ n))"
      by (simp add: c Let_def res)
  qed
  from log thrown found missing show ?thesis by (intro conjI)
qed

theorem create_locates_newest_witness:
  "fst (create ''DEV-1'' empty_repository (service_answering two_devices_answer))
     = Inr (new_Client (example_data ''id2'' ''Dev-1''))
   \<and> fst (create ''other'' empty_repository (service_answering two_devices_answer))
     = Inl (JsError ''Error'' ''Failed to find created client with name: other'')
   \<and> requests (snd (snd (create ''DEV-1'' empty_repository
        (service_answering two_devices_answer))))
     = [(''POST'', ''/api/wireguard/client'', Some [(''name'', ''DEV-1'')]), GET_clients]"
proof -
  let ?w = "service_answering two_devices_answer"
  have posted: "answers_item ?w (length (requests ?w))
      = Inr \<lparr> success = True, data = None, statusCode = 200 \<rparr>"
    by (simp add: service_answering_facts)
  have ok: "success \<lparr> success = True, data = (None :: IClientData option), statusCode = 200 \<rparr>"
    by simp
  have listed: "answers_list ?w (Suc (length (requests ?w))) = Inr two_devices_answer"
    by (simp add: service_answering_facts)
  have newest: "is_newest_match (toLowerCase ?w) ''DEV-1'' (toArray (snapshot_of two_devices_answer))
      (new_Client (example_data ''id2'' ''Dev-1''))"
    unfolding is_newest_match_def toArray_two_devices
    by (rule exI [of _ "[new_Client (example_data ''id1'' ''dev-1'')]"], rule exI [of _ "[]"])
       (simp add: same_name_examples service_answering_facts)
  have none: "list_all (\<lambda>x. \<not> same_name (toLowerCase ?w) ''other'' x) (toArray (snapshot_of two_devices_answer))"
    unfolding toArray_two_devices by (simp add: same_name_examples service_answering_facts)
  note a = create_locates_newest [OF validateClientName_examples(1) posted ok, of empty_repository]
  note b = create_locates_newest [OF validateClientName_examples(3) posted ok, of empty_repository]
  from a listed newest
  have one: "fst (create ''DEV-1'' empty_repository ?w)
      = Inr (new_Client (example_data ''id2'' ''Dev-1''))"
    by blast
  from b listed none
  have two: "fst (create ''other'' empty_repository ?w)
      = Inl (JsError ''Error'' ''Failed to find created client with name: other'')"
    by simp
  from a have three: "requests (snd (snd (create ''DEV-1'' empty_repository ?w)))
      = [(''POST'', ''/api/wireguard/client'', Some [(''name'', ''DEV-1'')]), GET_clients]"
    by (simp add: service_answering_facts)
  from one two three show ?thesis by (intro conjI)
qed

subsection \<open>A fetch without a usable answer\<close>

text \<open>
  Claim C10. When the fetch behind \<open>findAll\<close> returns (no transport error is thrown) with
  a non-success status or without a body, \<open>findAll\<close> returns the empty collection and
  leaves the repository, cache and timestamp, as it was; and a \<open>findById\<close> whose fetch
  ends so raises \<open>ClientNotFoundException\<close> for its id. That the call fetched is read from
  the log of requests: a \<open>findAll\<close> served from the cache and a \<open>findById\<close> whose id the
  validator rejects issue no request.
\<close>

theorem unusable_answer_law:
  assumes "answers_list w (length (requests w)) = Inr r"
    and "\<not> (success r \<and> data r \<noteq> None)"
  shows "(requests (snd (snd (findAll forceRefresh repo w))) \<noteq> requests w
            \<longrightarrow> fst (findAll forceRefresh repo w) = Inr (new_ClientCollection [])
              \<and> toArray (new_ClientCollection []) = []
              \<and> fst (snd (findAll forceRefresh repo w)) = repo)
       \<and> (requests (snd (snd (findById i repo w))) \<noteq> requests w
            \<longrightarrow> fst (findById i repo w) = Inl (ClientNotFoundException i)
              \<and> fst (snd (findById i repo w)) = repo)"
proof (intro conjI impI)
  assume "requests (snd (snd (findAll forceRefresh repo w))) \<noteq> requests w"
  from findAll_unusable [OF assms this]
  show "fst (findAll forceRefresh repo w) = Inr (new_ClientCollection [])"
    and "fst (snd (findAll forceRefresh repo w)) = repo"
    by simp_all
next
  show "toArray (new_ClientCollection []) = []"
    by (simp add: new_ClientCollection_empty toArray_def)
next
  assume fetched: "requests (snd (snd (findById i repo w))) \<noteq> requests w"
  have valid: "validateId i = None"
  proof (cases "validateId i")
    case None
    then show ?thesis .
  next
    case (Some e)
    from findById_requests_validation [OF this, of repo w] fetched have False by simp
    then show ?thesis ..
  qed
  from fetched have "requests (snd (snd (findAll False repo w))) \<noteq> requests w"
    by (simp add: findById_state [OF valid])
  from findAll_unusable [OF assms this]
  have all: "findAll False repo w
      = (Inr (new_ClientCollection []), repo,
         (snd (isCacheValid repo w))\<lparr>requests := requests w @ [GET_clients]\<rparr>)"
    by simp
  show "fst (findById i repo w) = Inl (ClientNotFoundException i)"
    and "fst (snd (findById i repo w)) = repo"
    by (simp_all add: findById_after_findAll [OF valid] all get_empty)
qed

theorem unusable_answer_law_witness:
  "fst (findAll False empty_repository (service_answering not_found_answer))
     = Inr (new_ClientCollection [])
   \<and> fst (snd (findAll False empty_repository (service_answering not_found_answer)))
     = empty_repository
   \<and> fst (findById ''abc'' empty_repository (service_answering not_found_answer))
     = Inl (ClientNotFoundException ''abc'')"
proof -
  let ?w = "service_answering not_found_answer"
  have a: "answers_list ?w (length (requests ?w)) = Inr not_found_answer"
    by (simp add: service_answering_facts)
  have b: "\<not> (success not_found_answer \<and> data not_found_answer \<noteq> None)"
    by (simp add: not_found_answer_def)
  have all: "findAll False empty_repository ?w
      = (Inr (new_ClientCollection []), empty_repository, ?w\<lparr>requests := [GET_clients]\<rparr>)"
    using fetch_all_unusable [OF a b, of empty_repository]
    by (simp add: findAll_def isCacheValid_empty_repository service_answering_facts)
  have c: "requests (snd (snd (findAll False empty_repository ?w))) \<noteq> requests ?w"
    by (simp add: all service_answering_facts)
  have d: "requests (snd (snd (findById ''abc'' empty_repository ?w))) \<noteq> requests ?w"
    by (simp add: findById_state [OF validateId_abc] all service_answering_facts)
  from unusable_answer_law [OF a b, of False empty_repository "''abc''"] c d
  show ?thesis by simp
qed

section \<open>Properties of the event emitter\<close>

lemma registered_simps [simp]:
  "registered [] = []"
  "registered (None # es) = registered es"
  "registered (Some x # es) = x # registered es"
  "registered (es @ fs) = registered es @ registered fs"
  by (simp_all add: registered_def)

lemma set_registered: "set (registered es) = {x. Some x \<in> set es}"
proof (induction es)
  case Nil
  show ?case by simp
next
  case (Cons a es)
  then show ?case by (cases a) auto
qed


lemma length_Set_delete [simp]: "length (Set_delete es x) = length es"
  by (simp add: Set_delete_def)

lemma Set_delete_idem [simp]: "Set_delete (Set_delete es x) x = Set_delete es x"
  by (simp add: Set_delete_def)

lemma distinct_Set_add: "distinct (registered es) \<Longrightarrow> distinct (registered (Set_add es x))"
  by (auto simp: Set_add_def set_registered)

lemma registered_Set_delete: "registered (Set_delete es x) = removeAll x (registered es)"
proof (induction es)
  case Nil
  show ?case by (simp add: Set_delete_def)
next
  case (Cons a es)
  then show ?case by (cases a) (auto simp: Set_delete_def)
qed

lemma eventHandlers_frame [simp]:
  "eventHandlers event (s\<lparr>invoked := i\<rparr>) = eventHandlers event s"
  "eventHandlers event (s\<lparr>console_error := c\<rparr>) = eventHandlers event s"
  by (simp_all add: eventHandlers_def)

lemma eventHandlers_off:
  "eventHandlers event (off event h s) = Set_delete (eventHandlers event s) h"
  by (simp add: off_def eventHandlers_def Set_delete_def split: option.splits)

lemma eventHandlers_other:
  "e' \<noteq> event \<Longrightarrow> eventHandlers event (off e' h s) = eventHandlers event s"
  "e' \<noteq> event \<Longrightarrow> eventHandlers event (on e' h s) = eventHandlers event s"
  by (simp_all add: off_def on_def eventHandlers_def split: option.splits)

lemma eventHandlers_on:
  "eventHandlers event (on event h s) = Set_add (eventHandlers event s) h"
  by (simp add: on_def eventHandlers_def)

lemma logs_on_off [simp]:
  "invoked (on e h s) = invoked s" "console_error (on e h s) = console_error s"
  "invoked (off e h s) = invoked s" "console_error (off e h s) = console_error s"
  by (simp_all add: off_def on_def split: option.splits)

lemma distinct_Set_delete: "distinct (registered es) \<Longrightarrow> distinct (registered (Set_delete es x))"
  by (simp add: registered_Set_delete distinct_removeAll)







text \<open>Whatever the handlers do, the calls are logged and so are the exceptions.\<close>

lemma logs_run_actions [simp]:
  "invoked (foldl (\<lambda>s a. run_action a s) s acts) = invoked s"
  "console_error (foldl (\<lambda>s a. run_action a s) s acts) = console_error s"
proof (induction acts arbitrary: s)
  case Nil
  case 1 show ?case by simp
  case 2 show ?case by simp
next
  case (Cons a acts)
  case 1 show ?case using Cons.IH(1) by (cases a) simp_all
  case 2 show ?case using Cons.IH(2) by (cases a) simp_all
qed









text \<open>
  Registration keeps the handlers of every kind distinct, so every emitter that \<open>on\<close> and
  \<open>off\<close> build from the empty one has distinct handlers.
\<close>

lemma distinct_on:
  "distinct (registered (eventHandlers event s)) \<Longrightarrow>
     distinct (registered (eventHandlers event (on e' h s)))"
  by (cases "e' = event") (simp_all add: eventHandlers_on eventHandlers_other distinct_Set_add)

lemma distinct_off:
  "distinct (registered (eventHandlers event s)) \<Longrightarrow>
     distinct (registered (eventHandlers event (off e' h s)))"
  by (cases "e' = event") (simp_all add: eventHandlers_off eventHandlers_other distinct_Set_delete)




subsection \<open>emit\<close>




end
